theory Spec2Isabelle
  imports Complex_Main "HOL-Library.Sublist"
begin

section \<open>Values, errors and observable calls\<close>

text \<open>
  Python values that flow through the scoring code: text, token ids, scores and lists
  of these.  A score is a finite Python float: a real number (the section on floats
  says which reals are floats and how arithmetic rounds).  Infinities and NaN are outside
  the model.
\<close>

datatype pyval =
    PStr string
  | PInt int
  | PFloat real
  | PList "pyval list"

datatype error =
    ValueError string
  | NotImplementedError string
  | ZeroDivisionError
  | TypeError
  | AttributeError
  | KeyError
  | IndexError
  | UnboundLocalError
  | NotFinite

text \<open>
  \<open>NotFinite\<close> is not an exception of the program: it marks a float result that is
  \<open>inf\<close> or \<open>nan\<close>, which the real-valued scores of the model do not hold.  The model
  follows such a run no further.
\<close>

text \<open>
  Calls that leave the code under study (methods of the model wrappers, \<open>print\<close>) are
  recorded as events, in the order in which they happen.
\<close>

datatype event =
    ModelLoad string
  | ModelUnload string
  | GetLL string pyval "real list option" "pyval option"
  | GetProbabilities string pyval "pyval option"
  | Decode string pyval
  | Print string
  | AttackCall string pyval "real list option" "real option"
  | AttackUnload string

section \<open>Collaborators: model wrappers and configuration\<close>

text \<open>
  A model wrapper (\<open>Model\<close>, \<open>PerturbationModel\<close>, \<open>LanguageModel\<close>,
  \<open>ReferenceModel\<close>) is external.  It is a name together with the functions the code
  calls on it: \<open>get_ll(document, probs, tokens)\<close>,
  \<open>get_probabilities(document, tokens)\<close> and \<open>tokenizer.decode(ids)\<close>.
\<close>

record model =
  model_name :: string
  get_ll :: "pyval \<Rightarrow> real list option \<Rightarrow> pyval option \<Rightarrow> real"
  get_probabilities :: "pyval \<Rightarrow> pyval option \<Rightarrow> real list"
  decode :: "pyval \<Rightarrow> pyval"

record neighborhood_config =
  n_perturbation_list :: "int list"
  load_from_cache :: bool
  dump_cache :: bool
  original_tokenization_swap :: bool

record experiment_config =
  pretokenized :: bool
  max_substrs :: int
  full_doc :: bool
  blackbox_attacks :: "string list"
  neigh_config :: "neighborhood_config option"

text \<open>
  The keyword arguments of \<open>attack\<close>: the keys that the callers in the sources pass.
  \<open>kwargs.get(k, None)\<close> is the field.
\<close>

record kwargs =
  detokenized_sample :: "pyval option"
  loss :: "real option"
  batch_size_kw :: "int option"
  substr_neighbors :: "pyval option"

section \<open>all_attacks.py: the base class\<close>

text \<open>
  \<open>self._attack\<close> is dispatched on the class of the object.  The sources hold the base
  class and \<open>PerturbationAttack\<close>; a strategy of any other subclass carries its scoring
  function, which maps document, probs, tokens and keyword arguments to a score or an
  exception.
\<close>

datatype attack_class =
    Attack
  | PerturbationAttack
  | Subclass "pyval \<Rightarrow> real list option \<Rightarrow> pyval option \<Rightarrow> kwargs \<Rightarrow> error + real"

record attack_obj =
  cls :: attack_class
  config :: experiment_config
  target_model :: model
  ref_model :: "model option"
  perturb_models :: "model list option"
  is_loaded :: bool
  is_blackbox :: bool

text \<open>\<open>Attack.__init__\<close>: stores its arguments, \<open>is_loaded = False\<close>.  Nothing is checked.\<close>

definition Attack_init ::
  "attack_class \<Rightarrow> experiment_config \<Rightarrow> model \<Rightarrow> model option \<Rightarrow> model list option \<Rightarrow> bool
     \<Rightarrow> error + attack_obj" where
  "Attack_init c cfg tm rm pms bb =
     Inr \<lparr>cls = c, config = cfg, target_model = tm, ref_model = rm, perturb_models = pms,
          is_loaded = False, is_blackbox = bb\<rparr>"

text \<open>
  \<open>Attack.load\<close>: the flag is set only inside the two branches.  The set of perturbation
  models is a list in iteration order.
\<close>

definition load :: "attack_obj \<Rightarrow> attack_obj \<times> event list" where
  "load self =
     (let (s1, ev1) = (case ref_model self of
                         None \<Rightarrow> (self, [])
                       | Some r \<Rightarrow> (self\<lparr>is_loaded := True\<rparr>, [ModelLoad (model_name r)]));
          (s2, ev2) = (case perturb_models s1 of
                         None \<Rightarrow> (s1, [])
                       | Some ms \<Rightarrow> (s1\<lparr>is_loaded := True\<rparr>, map (\<lambda>m. ModelLoad (model_name m)) ms))
      in (s2, ev1 @ ev2))"

definition unload :: "attack_obj \<Rightarrow> attack_obj \<times> event list" where
  "unload self =
     (let (s1, ev1) = (case ref_model self of
                         None \<Rightarrow> (self, [])
                       | Some r \<Rightarrow> (self\<lparr>is_loaded := False\<rparr>, [ModelUnload (model_name r)]));
          (s2, ev2) = (case perturb_models s1 of
                         None \<Rightarrow> (s1, [])
                       | Some ms \<Rightarrow> (s1\<lparr>is_loaded := False\<rparr>, map (\<lambda>m. ModelUnload (model_name m)) ms))
      in (s2, ev1 @ ev2))"

text \<open>\<open>Attack._attack\<close> of the base class.\<close>

definition Attack_attack_impl :: "(error + real) \<times> event list" where
  "Attack_attack_impl = (Inl (NotImplementedError ''Attack must implement attack()''), [])"

section \<open>Python floats\<close>

text \<open>
  A finite Python float is a real number that IEEE 754 binary64 represents: zero, or
  \<open>m * 2 ^ (e - 52)\<close> in absolute value with an integer \<open>m < 2 ^ 53\<close> and
  \<open>- 1022 \<le> e \<le> 1023\<close>.  An arithmetic operation returns the exact result rounded to
  the nearest float, ties to the even \<open>m\<close>; the result is \<open>None\<close> when the rounded
  magnitude reaches \<open>2 ^ 1024\<close> (Python's \<open>inf\<close>).  The two zeros are not distinguished.
\<close>

function bit_length :: "int \<Rightarrow> int" where
  "bit_length n = (if n \<le> 0 then 0 else 1 + bit_length (n div 2))"
  by pat_completeness auto
termination
  by (relation "measure nat") auto

definition pow2 :: "int \<Rightarrow> real" where
  "pow2 e = (if 0 \<le> e then 2 ^ nat e else 1 / 2 ^ nat (- e))"

text \<open>For \<open>a > 0\<close>, the integer \<open>e\<close> with \<open>2 ^ e \<le> a < 2 ^ (e + 1)\<close>.\<close>

definition floor_log2 :: "real \<Rightarrow> int" where
  "floor_log2 a =
     (if 1 \<le> a then bit_length \<lfloor>a\<rfloor> - 1
      else (let k = bit_length \<lfloor>1 / a\<rfloor> - 1
            in if 1 / a = pow2 k then - k else - (k + 1)))"

definition round_half_even :: "real \<Rightarrow> int" where
  "round_half_even t =
     (let f = \<lfloor>t\<rfloor>; r = t - of_int f
      in if r < 1 / 2 then f else if 1 / 2 < r then f + 1 else if even f then f else f + 1)"

text \<open>
  Rounding to binary64.  Below the exponent 1023 the rounded magnitude is at most
  \<open>2 ^ 1023\<close>, so only the top binade is tested for overflow.
\<close>

definition round64 :: "real \<Rightarrow> real option" where
  "round64 x =
     (if x = 0 then Some 0
      else (let a = \<bar>x\<bar>;
                e = max (floor_log2 a) (- 1022);
                q = pow2 (e - 52);
                r = of_int (round_half_even (a / q)) * q
            in if e < 1023 then Some (if x < 0 then - r else r)
               else if pow2 1024 \<le> r then None
               else Some (if x < 0 then - r else r)))"

definition is_float :: "real \<Rightarrow> bool" where
  "is_float x = (round64 x = Some x)"

text \<open>
  \<open>x + y\<close>, \<open>x - y\<close> on floats, and \<open>x / n\<close> for a float and an int: the int is
  converted to a float first.
\<close>

definition fadd :: "real \<Rightarrow> real \<Rightarrow> real option" where
  "fadd x y = round64 (x + y)"

definition fsub :: "real \<Rightarrow> real \<Rightarrow> real option" where
  "fsub x y = round64 (x - y)"

definition fdiv :: "real \<Rightarrow> nat \<Rightarrow> real option" where
  "fdiv x n = (case round64 (real n) of None \<Rightarrow> None | Some d \<Rightarrow> round64 (x / d))"

section \<open>perturbation.py\<close>

definition PerturbationAttack_init ::
  "experiment_config \<Rightarrow> model \<Rightarrow> model list option \<Rightarrow> error + attack_obj" where
  "PerturbationAttack_init cfg m perturbation_models =
     Attack_init PerturbationAttack cfg m None perturbation_models True"

text \<open>
  \<open>PerturbationAttack._attack\<close>.  The target loss is computed only when the caller did
  not pass one.  Iterating \<open>None\<close> raises \<open>TypeError\<close>.  \<open>perturb_loss\<close> starts as the
  float \<open>0.0\<close> and each model's loss is added to it in float arithmetic, in iteration
  order; with no perturbation model the division raises \<open>ZeroDivisionError\<close>.  Once an
  intermediate result is not finite the score is not finite either.
\<close>

definition PerturbationAttack_attack_impl ::
  "attack_obj \<Rightarrow> pyval \<Rightarrow> real list option \<Rightarrow> pyval option \<Rightarrow> kwargs
     \<Rightarrow> (error + real) \<times> event list" where
  "PerturbationAttack_attack_impl self document probs tokens kw =
     (let (l, ev1) = (case loss kw of
                        Some l \<Rightarrow> (l, [])
                      | None \<Rightarrow> (get_ll (target_model self) document probs tokens,
                                  [GetLL (model_name (target_model self)) document probs tokens]))
      in case perturb_models self of
           None \<Rightarrow> (Inl TypeError, ev1)
         | Some ms \<Rightarrow>
             (let perturb_loss =
                    fold (\<lambda>m acc. case acc of
                                     None \<Rightarrow> None
                                   | Some s \<Rightarrow> fadd s (get_ll m document None tokens))
                      ms (Some 0);
                  ev2 = map (\<lambda>m. GetLL (model_name m) document None tokens) ms
              in (if length ms = 0 then Inl ZeroDivisionError
                  else (case perturb_loss of
                          None \<Rightarrow> Inl NotFinite
                        | Some s \<Rightarrow>
                            (case fdiv s (length ms) of
                               None \<Rightarrow> Inl NotFinite
                             | Some mean \<Rightarrow>
                                 (case fsub l mean of
                                    None \<Rightarrow> Inl NotFinite
                                  | Some score \<Rightarrow> Inr score))),
                  ev1 @ ev2)))"

text \<open>Method dispatch of \<open>self._attack\<close>.\<close>

definition attack_impl ::
  "attack_obj \<Rightarrow> pyval \<Rightarrow> real list option \<Rightarrow> pyval option \<Rightarrow> kwargs
     \<Rightarrow> (error + real) \<times> event list" where
  "attack_impl self document probs tokens kw =
     (case cls self of
        Attack \<Rightarrow> Attack_attack_impl
      | PerturbationAttack \<Rightarrow> PerturbationAttack_attack_impl self document probs tokens kw
      | Subclass f \<Rightarrow> (f document probs tokens kw, []))"

text \<open>
  \<open>Attack.attack\<close>: lazy load, the check of the pretokenized contract, then the scoring
  function on the document, or on the detokenized text with the document as tokens.
  The result is the score or the exception, the object afterwards, and the events.
\<close>

definition detok_msg :: string where
  "detok_msg = ''detokenized_sample must be provided''"

definition attack ::
  "attack_obj \<Rightarrow> pyval \<Rightarrow> real list option \<Rightarrow> kwargs
     \<Rightarrow> (error + real) \<times> attack_obj \<times> event list" where
  "attack self document probs kw =
     (let (s1, ev0) = (if \<not> is_loaded self
                       then (let (s, ev) = load self in (s\<lparr>is_loaded := True\<rparr>, ev))
                       else (self, []))
      in case (pretokenized (config s1), detokenized_sample kw) of
           (True, None) \<Rightarrow> (Inl (ValueError detok_msg), s1, ev0)
         | (True, Some d) \<Rightarrow>
             (let (r, ev) = attack_impl s1 d probs (Some document) kw in (r, s1, ev0 @ ev))
         | (False, _) \<Rightarrow>
             (let (r, ev) = attack_impl s1 document probs None kw in (r, s1, ev0 @ ev)))"

section \<open>Python helpers\<close>

text \<open>A \<open>dict\<close> keeps its keys in insertion order: an association list with distinct keys.\<close>

fun dict_set :: "('k \<times> 'v) list \<Rightarrow> 'k \<Rightarrow> 'v \<Rightarrow> ('k \<times> 'v) list" where
  "dict_set [] k v = [(k, v)]"
| "dict_set ((k', v') # d) k v = (if k' = k then (k, v) # d else (k', v') # dict_set d k v)"

text \<open>\<open>xs[:k]\<close>: a negative \<open>k\<close> counts from the end.\<close>

definition py_slice_to :: "'a list \<Rightarrow> int \<Rightarrow> 'a list" where
  "py_slice_to xs k = (if 0 \<le> k then take (nat k) xs else take (length xs - nat (- k)) xs)"

definition slice_to :: "pyval \<Rightarrow> int \<Rightarrow> error + pyval" where
  "slice_to v k =
     (case v of
        PStr s \<Rightarrow> Inr (PStr (py_slice_to s k))
      | PList xs \<Rightarrow> Inr (PList (py_slice_to xs k))
      | _ \<Rightarrow> Inl TypeError)"

text \<open>The elements that a \<open>for\<close> loop over the value visits.\<close>

definition py_iter :: "pyval \<Rightarrow> error + pyval list" where
  "py_iter v =
     (case v of
        PList xs \<Rightarrow> Inr xs
      | PStr s \<Rightarrow> Inr (map (\<lambda>c. PStr [c]) s)
      | _ \<Rightarrow> Inl TypeError)"

definition py_getitem :: "pyval \<Rightarrow> nat \<Rightarrow> error + pyval" where
  "py_getitem v i =
     (case v of
        PList xs \<Rightarrow> (if i < length xs then Inr (xs ! i) else Inl IndexError)
      | PStr s \<Rightarrow> (if i < length s then Inr (PStr [s ! i]) else Inl IndexError)
      | _ \<Rightarrow> Inl TypeError)"

fun str_nat :: "nat \<Rightarrow> string" where
  "str_nat n = (if n < 10 then [''0123456789'' ! n] else str_nat (n div 10) @ [''0123456789'' ! (n mod 10)])"

definition str_int :: "int \<Rightarrow> string" where
  "str_int i = (if i < 0 then CHR ''-'' # str_nat (nat (- i)) else str_nat (nat i))"

text \<open>\<open>s.split(c)\<close> for a one-character separator; the result is never empty.\<close>

fun split_sep :: "char \<Rightarrow> string \<Rightarrow> string list" where
  "split_sep c [] = [[]]"
| "split_sep c (x # xs) =
     (if x = c then [] # split_sep c xs
      else (case split_sep c xs of w # ws \<Rightarrow> (x # w) # ws | [] \<Rightarrow> [[x]]))"

text \<open>
  \<open>np.min(scores)\<close>.  An empty list raises \<open>ValueError\<close>.  In this program the value
  under an attack key is a list of floats; for any other value the model reports
  \<open>TypeError\<close>.
\<close>

fun as_float :: "pyval \<Rightarrow> real option" where
  "as_float (PFloat x) = Some x"
| "as_float _ = None"

fun floats_of :: "pyval list \<Rightarrow> real list option" where
  "floats_of [] = Some []"
| "floats_of (v # vs) =
     (case as_float v of
        None \<Rightarrow> None
      | Some x \<Rightarrow> (case floats_of vs of None \<Rightarrow> None | Some xs \<Rightarrow> Some (x # xs)))"

definition np_min :: "pyval \<Rightarrow> error + real" where
  "np_min v =
     (case v of
        PList vs \<Rightarrow>
          (case floats_of vs of
             None \<Rightarrow> Inl TypeError
           | Some [] \<Rightarrow> Inl (ValueError ''zero-size array to reduction operation minimum which has no identity'')
           | Some (x # xs) \<Rightarrow> Inr (fold min xs x))
      | _ \<Rightarrow> Inl TypeError)"

section \<open>new\_mi\_experiment.py: the attack identifiers\<close>

text \<open>
  Modelled from the spec: the module \<open>mimir.attacks.blackbox_attacks\<close> with the enum
  \<open>BlackBoxAttacks\<close> is not among the sources.  Its members are those of the enum
  \<open>AllAttacks\<close> of all\_attacks.py, whose values the spec uses as keys (\<open>ref-A\<close>,
  \<open>ne-5\<close>).
\<close>

definition LOSS :: string where "LOSS = ''loss''"
definition REFERENCE_BASED :: string where "REFERENCE_BASED = ''ref''"
definition NEIGHBOR :: string where "NEIGHBOR = ''ne''"

definition BlackBoxAttacks :: "string list" where
  "BlackBoxAttacks =
     [''loss'', ''ref'', ''perturb'', ''zlib'', ''min_k'', ''min_k++'', ''ne'', ''gradnorm'',
      ''recall'', ''dc_pdd'']"

section \<open>new\_mi\_experiment.py: get\_attackers\<close>

text \<open>
  The first loop of \<open>get_attackers\<close>: an identifier that is not implemented is reported,
  and then appended like every other one (\<open>pass\<close> does nothing).
\<close>

definition runnable_attacks :: "string list \<Rightarrow> string list \<times> event list" where
  "runnable_attacks attacks =
     fold (\<lambda>a (runnable, ev).
             (runnable @ [a],
              ev @ (if a \<notin> set BlackBoxAttacks
                    then [Print (''Attack '' @ a @ '' not implemented, will be ignored'')]
                    else [])))
          attacks ([], [])"

text \<open>
  \<open>get_attacker\<close> (module \<open>mimir.attacks.utils\<close>) is not among the sources: it is a
  parameter that maps an identifier to a constructor or raises.  A constructor takes
  the configuration, the target model and, for the reference attack, the reference
  model.
\<close>

type_synonym constructor = "experiment_config \<Rightarrow> model \<Rightarrow> model option \<Rightarrow> error + attack_obj"

fun init_attackers ::
  "(string \<Rightarrow> error + constructor) \<Rightarrow> experiment_config \<Rightarrow> model \<Rightarrow> string list
     \<Rightarrow> (string \<times> attack_obj) list \<Rightarrow> error + (string \<times> attack_obj) list" where
  "init_attackers get_attacker cfg tm [] attackers = Inr attackers"
| "init_attackers get_attacker cfg tm (a # as) attackers =
     (if a \<noteq> REFERENCE_BASED
      then (case get_attacker a of
              Inl e \<Rightarrow> Inl e
            | Inr mk \<Rightarrow>
                (case mk cfg tm None of
                   Inl e \<Rightarrow> Inl e
                 | Inr obj \<Rightarrow> init_attackers get_attacker cfg tm as (dict_set attackers a obj)))
      else init_attackers get_attacker cfg tm as attackers)"

definition ref_key_of :: "string \<Rightarrow> string" where
  "ref_key_of name = REFERENCE_BASED @ ''-'' @ last (split_sep CHR ''/'' name)"

fun init_ref_attackers ::
  "(string \<Rightarrow> error + constructor) \<Rightarrow> experiment_config \<Rightarrow> model \<Rightarrow> (string \<times> model) list
     \<Rightarrow> (string \<times> attack_obj) list \<Rightarrow> error + (string \<times> attack_obj) list" where
  "init_ref_attackers get_attacker cfg tm [] attackers = Inr attackers"
| "init_ref_attackers get_attacker cfg tm ((name, rm) # rms) attackers =
     (case get_attacker REFERENCE_BASED of
        Inl e \<Rightarrow> Inl e
      | Inr mk \<Rightarrow>
          (case mk cfg tm (Some rm) of
             Inl e \<Rightarrow> Inl e
           | Inr obj \<Rightarrow>
               init_ref_attackers get_attacker cfg tm rms (dict_set attackers (ref_key_of name) obj)))"

definition get_attackers ::
  "(string \<Rightarrow> error + constructor) \<Rightarrow> model \<Rightarrow> (string \<times> model) list option \<Rightarrow> experiment_config
     \<Rightarrow> (error + (string \<times> attack_obj) list) \<times> event list" where
  "get_attackers get_attacker tm ref_models cfg =
     (let (attacks, ev) = runnable_attacks (blackbox_attacks cfg)
      in (case init_attackers get_attacker cfg tm attacks [] of
            Inl e \<Rightarrow> Inl e
          | Inr attackers \<Rightarrow>
              (case ref_models of
                 None \<Rightarrow> Inr attackers
               | Some rms \<Rightarrow> init_ref_attackers get_attacker cfg tm rms attackers),
          ev))"

section \<open>new\_mi\_experiment.py: get\_mia\_scores\<close>

text \<open>
  The state that the scoring loop changes: the attack objects behind \<open>attackers_dict\<close>
  (a call of \<open>attack\<close> or \<open>unload\<close> updates the object under its key) and the events
  so far.  An exception ends the run: the outcome is then \<open>Inl\<close> of the error.
\<close>

record pstate =
  attackers_dict :: "(string \<times> attack_obj) list"
  events :: "event list"

text \<open>
  \<open>sample_information\<close> is a \<open>defaultdict(list)\<close>: the substrings under \<open>sample\<close>,
  their decoded texts under \<open>detokenized\<close>, and a list of scores under each attack key.
\<close>

type_synonym sample_information = "(string \<times> pyval) list"

text \<open>\<open>d[k].append(x)\<close>: a missing key starts from the empty list.\<close>

definition si_append :: "sample_information \<Rightarrow> string \<Rightarrow> pyval \<Rightarrow> error + sample_information" where
  "si_append si k x =
     (case map_of si k of
        None \<Rightarrow> Inr (si @ [(k, PList [x])])
      | Some (PList xs) \<Rightarrow> Inr (dict_set si k (PList (xs @ [x])))
      | Some _ \<Rightarrow> Inl AttributeError)"

text \<open>\<open>d[k].extend(xs)\<close>.\<close>

definition si_extend :: "sample_information \<Rightarrow> string \<Rightarrow> pyval list \<Rightarrow> error + sample_information" where
  "si_extend si k ys =
     (case map_of si k of
        None \<Rightarrow> Inr (si @ [(k, PList ys)])
      | Some (PList xs) \<Rightarrow> Inr (dict_set si k (PList (xs @ ys)))
      | Some _ \<Rightarrow> Inl AttributeError)"

text \<open>\<open>d[k]\<close> on the \<open>defaultdict\<close>: reading a missing key inserts the empty list.\<close>

definition si_get :: "sample_information \<Rightarrow> string \<Rightarrow> pyval \<times> sample_information" where
  "si_get si k =
     (case map_of si k of
        None \<Rightarrow> (PList [], si @ [(k, PList [])])
      | Some v \<Rightarrow> (v, si))"

text \<open>
  \<open>attacker.attack(...)\<close> on the object under a key of \<open>attackers_dict\<close>: the call is
  recorded, followed by the events of \<open>attack\<close> itself, and the object is updated.
\<close>

definition call_attack ::
  "string \<Rightarrow> pyval \<Rightarrow> real list option \<Rightarrow> kwargs \<Rightarrow> pstate \<Rightarrow> error + real \<times> pstate" where
  "call_attack k document probs kw st =
     (case map_of (attackers_dict st) k of
        None \<Rightarrow> Inl KeyError
      | Some a \<Rightarrow>
          (let (r, a', ev) = attack a document probs kw
           in case r of
                Inl e \<Rightarrow> Inl e
              | Inr score \<Rightarrow>
                  Inr (score,
                       \<lparr>attackers_dict = dict_set (attackers_dict st) k a',
                        events = events st @ [AttackCall k document probs (loss kw)] @ ev\<rparr>)))"

text \<open>What the loops over one substring read.\<close>

record substr_ctx =
  c_config :: experiment_config
  c_neighbors :: "(int \<times> pyval) list option"
  c_doc_index :: nat
  c_i :: nat
  c_substr :: pyval
  c_detok :: "pyval option"
  c_probs :: "real list"
  c_loss :: real

definition attack_kwargs :: "substr_ctx \<Rightarrow> kwargs" where
  "attack_kwargs c =
     \<lparr>detokenized_sample = (if pretokenized (c_config c) then c_detok c else None),
      loss = Some (c_loss c), batch_size_kw = None, substr_neighbors = None\<rparr>"

text \<open>
  The loop over \<open>n_perturbation_list\<close> for the neighborhood attack.  \<open>if neighbors\<close>
  tests the cache for truth: \<open>None\<close> and the empty dictionary are both false.
\<close>

fun neighbor_loop ::
  "substr_ctx \<Rightarrow> neighborhood_config \<Rightarrow> int list \<Rightarrow> sample_information \<Rightarrow> pstate
     \<Rightarrow> error + sample_information \<times> pstate" where
  "neighbor_loop c nc [] si st = Inr (si, st)"
| "neighbor_loop c nc (n_perturbation # ns) si st =
     (case c_neighbors c of
        None \<Rightarrow> neighbor_loop c nc ns si st
      | Some neighbors \<Rightarrow>
          (if neighbors \<noteq> [] \<and> \<not> dump_cache nc
           then (case map_of neighbors n_perturbation of
                   None \<Rightarrow> Inl KeyError
                 | Some per_doc \<Rightarrow>
                     (case py_getitem per_doc (c_doc_index c) of
                        Inl e \<Rightarrow> Inl e
                      | Inr per_substr \<Rightarrow>
                          (case py_getitem per_substr (c_i c) of
                             Inl e \<Rightarrow> Inl e
                           | Inr sn \<Rightarrow>
                               (case call_attack NEIGHBOR (c_substr c) (Some (c_probs c))
                                       ((attack_kwargs c)\<lparr>batch_size_kw := Some 4,
                                                          substr_neighbors := Some sn\<rparr>) st of
                                  Inl e \<Rightarrow> Inl e
                                | Inr (score, st') \<Rightarrow>
                                    (case si_append si (NEIGHBOR @ ''-'' @ str_int n_perturbation)
                                            (PFloat score) of
                                       Inl e \<Rightarrow> Inl e
                                     | Inr si' \<Rightarrow> neighbor_loop c nc ns si' st')))))
           else neighbor_loop c nc ns si st))"

text \<open>
  The loop over \<open>attackers_dict.items()\<close> for one substring.  \<open>sample_information\<close>
  holds the very list that the substring loop iterates, under the key \<open>sample\<close>: once
  a score is appended there the list grows with every iteration and the substring loop
  has no normal end.  The model reports that as \<open>NoReturn\<close>.
\<close>

datatype outcome_error = Raised error | NoReturn

fun attack_loop ::
  "substr_ctx \<Rightarrow> string list \<Rightarrow> sample_information \<Rightarrow> pstate
     \<Rightarrow> outcome_error + sample_information \<times> pstate" where
  "attack_loop c [] si st = Inr (si, st)"
| "attack_loop c (a # as) si st =
     (if prefix REFERENCE_BASED a \<or> a = LOSS then attack_loop c as si st
      else if a \<noteq> NEIGHBOR
      then (case call_attack a (c_substr c) (Some (c_probs c)) (attack_kwargs c) st of
              Inl e \<Rightarrow> Inl (Raised e)
            | Inr (score, st') \<Rightarrow>
                (case si_append si a (PFloat score) of
                   Inl e \<Rightarrow> Inl (Raised e)
                 | Inr si' \<Rightarrow> if a = ''sample'' then Inl NoReturn else attack_loop c as si' st'))
      else (case neigh_config (c_config c) of
              None \<Rightarrow> Inl (Raised UnboundLocalError)
            | Some nc \<Rightarrow>
                (case neighbor_loop c nc (n_perturbation_list nc) si st of
                   Inl e \<Rightarrow> Inl (Raised e)
                 | Inr (si', st') \<Rightarrow> attack_loop c as si' st')))"

text \<open>
  The body of the substring loop: token probabilities and loss from the target model
  (on the decoded text with the ids as tokens when pretokenized), the loss under
  \<open>LOSS\<close>, then every attack.
\<close>

definition score_substr ::
  "experiment_config \<Rightarrow> model \<Rightarrow> (int \<times> pyval) list option \<Rightarrow> nat \<Rightarrow> pyval list \<Rightarrow> nat \<times> pyval
     \<Rightarrow> sample_information \<Rightarrow> pstate \<Rightarrow> outcome_error + sample_information \<times> pstate" where
  "score_substr cfg tm neighbors doc_index detokenized item si st =
     (let (i, substr) = item
      in case (if \<not> pretokenized cfg then Inr (substr, None, None)
               else (case py_getitem (PList detokenized) i of
                       Inl e \<Rightarrow> Inl e
                     | Inr d \<Rightarrow> Inr (d, Some substr, Some d))) of
           Inl e \<Rightarrow> Inl (Raised e)
         | Inr (text, tokens, detok) \<Rightarrow>
             (let s_tk_probs = get_probabilities tm text tokens;
                  l = get_ll tm text (Some s_tk_probs) tokens;
                  st1 = st\<lparr>events := events st @ [GetProbabilities (model_name tm) text tokens,
                                                   GetLL (model_name tm) text (Some s_tk_probs) tokens]\<rparr>
              in case si_append si LOSS (PFloat l) of
                   Inl e \<Rightarrow> Inl (Raised e)
                 | Inr si1 \<Rightarrow>
                     attack_loop
                       \<lparr>c_config = cfg, c_neighbors = neighbors, c_doc_index = doc_index, c_i = i,
                        c_substr = substr, c_detok = detok, c_probs = s_tk_probs, c_loss = l\<rparr>
                       (map fst (attackers_dict st1)) si1 st1))"

fun substr_loop ::
  "experiment_config \<Rightarrow> model \<Rightarrow> (int \<times> pyval) list option \<Rightarrow> nat \<Rightarrow> pyval list \<Rightarrow> (nat \<times> pyval) list
     \<Rightarrow> sample_information \<Rightarrow> pstate \<Rightarrow> outcome_error + sample_information \<times> pstate" where
  "substr_loop cfg tm neighbors doc_index detokenized [] si st = Inr (si, st)"
| "substr_loop cfg tm neighbors doc_index detokenized (item # items) si st =
     (case score_substr cfg tm neighbors doc_index detokenized item si st of
        Inl e \<Rightarrow> Inl e
      | Inr (si', st') \<Rightarrow> substr_loop cfg tm neighbors doc_index detokenized items si' st')"

text \<open>
  The body of the document loop.  The substrings are the first \<open>max_substrs\<close> pieces of
  the record when \<open>full_doc\<close> is set, and the record itself as the only substring
  otherwise.
\<close>

definition sample_of :: "experiment_config \<Rightarrow> pyval \<Rightarrow> error + pyval" where
  "sample_of cfg text = (if full_doc cfg then slice_to text (max_substrs cfg) else Inr (PList [text]))"

definition process_document ::
  "experiment_config \<Rightarrow> model \<Rightarrow> (int \<times> pyval) list option \<Rightarrow> nat \<Rightarrow> pyval \<Rightarrow> pstate
     \<Rightarrow> outcome_error + sample_information \<times> pstate" where
  "process_document cfg tm neighbors doc_index text st =
     (case sample_of cfg text of
        Inl e \<Rightarrow> Inl (Raised e)
      | Inr sample \<Rightarrow>
          (case py_iter sample of
             Inl e \<Rightarrow> Inl (Raised e)
           | Inr substrs \<Rightarrow>
               (let si0 = dict_set [] ''sample'' sample;
                    detokenized = (if pretokenized cfg then map (decode tm) substrs else []);
                    si1 = (if pretokenized cfg
                           then dict_set si0 ''detokenized'' (PList detokenized)
                           else si0);
                    st1 = (if pretokenized cfg
                           then st\<lparr>events := events st @ map (Decode (model_name tm)) substrs\<rparr>
                           else st)
                in substr_loop cfg tm neighbors doc_index detokenized
                     (zip [0..<length substrs] substrs) si1 st1)))"

fun document_loop ::
  "experiment_config \<Rightarrow> model \<Rightarrow> (int \<times> pyval) list option \<Rightarrow> nat \<Rightarrow> (nat \<times> pyval) list
     \<Rightarrow> sample_information list \<Rightarrow> pstate \<Rightarrow> outcome_error + sample_information list \<times> pstate" where
  "document_loop cfg tm neighbors offset [] results st = Inr (results, st)"
| "document_loop cfg tm neighbors offset ((idx, text) # texts) results st =
     (case process_document cfg tm neighbors (offset + idx) text st of
        Inl e \<Rightarrow> Inl e
      | Inr (si, st') \<Rightarrow> document_loop cfg tm neighbors offset texts (results @ [si]) st')"

text \<open>The batch loop: batch \<open>b\<close> holds \<open>records[b * batch_size : (b + 1) * batch_size]\<close>.\<close>

fun batch_loop ::
  "experiment_config \<Rightarrow> model \<Rightarrow> (int \<times> pyval) list option \<Rightarrow> pyval list \<Rightarrow> nat \<Rightarrow> nat list
     \<Rightarrow> sample_information list \<Rightarrow> pstate \<Rightarrow> outcome_error + sample_information list \<times> pstate" where
  "batch_loop cfg tm neighbors recs batch_size [] results st = Inr (results, st)"
| "batch_loop cfg tm neighbors recs batch_size (batch # batches) results st =
     (let texts = take batch_size (drop (batch * batch_size) recs)
      in case document_loop cfg tm neighbors (batch * batch_size) (zip [0..<length texts] texts) results st of
           Inl e \<Rightarrow> Inl e
         | Inr (results', st') \<Rightarrow> batch_loop cfg tm neighbors recs batch_size batches results' st')"

text \<open>
  The input \<open>data\<close>: the records, and the neighbor cache when the key \<open>neighbors\<close> is
  there.
\<close>

record data =
  records :: "pyval list"
  neighbors_cache :: "(int \<times> pyval) list option"

text \<open>
  The primary pass, from the start of \<open>get_mia_scores\<close> to the end of the batch loop.
  \<open>math.ceil(n_samples / batch_size)\<close> is computed on natural numbers.
\<close>

definition primary_pass ::
  "data \<Rightarrow> model \<Rightarrow> experiment_config \<Rightarrow> nat option \<Rightarrow> nat \<Rightarrow> pstate
     \<Rightarrow> outcome_error + sample_information list \<times> pstate" where
  "primary_pass dat tm cfg n_samples batch_size st =
     (let n = (case n_samples of None \<Rightarrow> length (records dat) | Some n \<Rightarrow> n)
      in case (if NEIGHBOR \<in> set (map fst (attackers_dict st))
               then (case neigh_config cfg of
                       None \<Rightarrow> Inl AttributeError
                     | Some nc \<Rightarrow>
                         (if load_from_cache nc
                          then (case neighbors_cache dat of
                                  None \<Rightarrow> Inl KeyError
                                | Some nb \<Rightarrow>
                                    Inr (Some nb, st\<lparr>events := events st @ [Print ''Loaded neighbors from cache!'']\<rparr>))
                          else Inr (None, st)))
               else Inr (None, st)) of
           Inl e \<Rightarrow> Inl (Raised e)
         | Inr (neighbors, st1) \<Rightarrow>
             (if batch_size = 0 then Inl (Raised ZeroDivisionError)
              else batch_loop cfg tm neighbors (records dat) batch_size
                     [0..<(n + batch_size - 1) div batch_size] [] st1))"

text \<open>The reference pass.\<close>

fun ref_substr_loop ::
  "experiment_config \<Rightarrow> string \<Rightarrow> sample_information \<Rightarrow> (nat \<times> pyval) list \<Rightarrow> pyval list \<Rightarrow> pstate
     \<Rightarrow> error + pyval list \<times> pstate" where
  "ref_substr_loop cfg ref_key r [] ref_model_scores st = Inr (ref_model_scores, st)"
| "ref_substr_loop cfg ref_key r ((i, s) # items) ref_model_scores st =
     (case (if pretokenized cfg then py_getitem (fst (si_get r ''detokenized'')) i else Inr s) of
        Inl e \<Rightarrow> Inl e
      | Inr s' \<Rightarrow>
          (case py_getitem (fst (si_get r LOSS)) i of
             Inl e \<Rightarrow> Inl e
           | Inr lv \<Rightarrow>
               (case as_float lv of
                  None \<Rightarrow> Inl TypeError
                | Some l \<Rightarrow>
                    (case call_attack ref_key s' None
                            \<lparr>detokenized_sample = None, loss = Some l, batch_size_kw = None,
                             substr_neighbors = None\<rparr> st of
                       Inl e \<Rightarrow> Inl e
                     | Inr (score, st') \<Rightarrow>
                         ref_substr_loop cfg ref_key r items (ref_model_scores @ [PFloat score]) st'))))"

definition ref_record ::
  "experiment_config \<Rightarrow> string \<Rightarrow> sample_information \<Rightarrow> pstate \<Rightarrow> error + sample_information \<times> pstate" where
  "ref_record cfg ref_key r st =
     (let (sample, r1) = si_get r ''sample''
      in case py_iter sample of
           Inl e \<Rightarrow> Inl e
         | Inr substrs \<Rightarrow>
             (case ref_substr_loop cfg ref_key r1 (zip [0..<length substrs] substrs) [] st of
                Inl e \<Rightarrow> Inl e
              | Inr (ref_model_scores, st') \<Rightarrow>
                  (case si_extend r1 ref_key ref_model_scores of
                     Inl e \<Rightarrow> Inl e
                   | Inr r2 \<Rightarrow> Inr (r2, st'))))"

fun ref_results_loop ::
  "experiment_config \<Rightarrow> string \<Rightarrow> sample_information list \<Rightarrow> sample_information list \<Rightarrow> pstate
     \<Rightarrow> error + sample_information list \<times> pstate" where
  "ref_results_loop cfg ref_key [] updated st = Inr (updated, st)"
| "ref_results_loop cfg ref_key (r # rs) updated st =
     (case ref_record cfg ref_key r st of
        Inl e \<Rightarrow> Inl e
      | Inr (r', st') \<Rightarrow> ref_results_loop cfg ref_key rs (updated @ [r']) st')"

definition call_unload :: "string \<Rightarrow> pstate \<Rightarrow> pstate" where
  "call_unload k st =
     (case map_of (attackers_dict st) k of
        None \<Rightarrow> st
      | Some a \<Rightarrow>
          (let (a', ev) = unload a
           in \<lparr>attackers_dict = dict_set (attackers_dict st) k a',
               events = events st @ [AttackUnload k] @ ev\<rparr>))"

fun ref_models_loop ::
  "experiment_config \<Rightarrow> string list \<Rightarrow> sample_information list \<Rightarrow> pstate
     \<Rightarrow> error + sample_information list \<times> pstate" where
  "ref_models_loop cfg [] results st = Inr (results, st)"
| "ref_models_loop cfg (name # names) results st =
     (case map_of (attackers_dict st) (ref_key_of name) of
        None \<Rightarrow> ref_models_loop cfg names results st
      | Some _ \<Rightarrow>
          (case ref_results_loop cfg (ref_key_of name) results [] st of
             Inl e \<Rightarrow> Inl e
           | Inr (results', st') \<Rightarrow>
               ref_models_loop cfg names results' (call_unload (ref_key_of name) st')))"

definition reference_pass ::
  "experiment_config \<Rightarrow> (string \<times> model) list option \<Rightarrow> sample_information list \<Rightarrow> pstate
     \<Rightarrow> error + sample_information list \<times> pstate" where
  "reference_pass cfg ref_models results st =
     (case ref_models of
        Some rms \<Rightarrow> ref_models_loop cfg (map fst rms) results st
      | None \<Rightarrow>
          Inr (results,
               st\<lparr>events := events st @
                    [Print ''No reference models specified, skipping Reference-based attacks'']\<rparr>))"

text \<open>The aggregation: one minimum per record and attack key.\<close>

type_synonym predictions = "(string \<times> real list) list"

definition pred_append :: "predictions \<Rightarrow> string \<Rightarrow> real \<Rightarrow> predictions" where
  "pred_append p k x =
     (case map_of p k of
        None \<Rightarrow> p @ [(k, [x])]
      | Some xs \<Rightarrow> dict_set p k (xs @ [x]))"

fun aggregate_items :: "(string \<times> pyval) list \<Rightarrow> predictions \<Rightarrow> error + predictions" where
  "aggregate_items [] p = Inr p"
| "aggregate_items ((a, scores) # items) p =
     (if a \<noteq> ''sample'' \<and> a \<noteq> ''detokenized''
      then (case np_min scores of
              Inl e \<Rightarrow> Inl e
            | Inr m \<Rightarrow> aggregate_items items (pred_append p a m))
      else aggregate_items items p)"

fun aggregate ::
  "sample_information list \<Rightarrow> pyval list \<Rightarrow> predictions \<Rightarrow> error + predictions \<times> pyval list" where
  "aggregate [] samples p = Inr (p, samples)"
| "aggregate (r # rs) samples p =
     (let (sample, r1) = si_get r ''sample''
      in case aggregate_items r1 p of
           Inl e \<Rightarrow> Inl e
         | Inr p' \<Rightarrow> aggregate rs (samples @ [sample]) p')"

definition raised :: "error + 'a \<Rightarrow> outcome_error + 'a" where
  "raised r = (case r of Inl e \<Rightarrow> Inl (Raised e) | Inr x \<Rightarrow> Inr x)"

text \<open>
  The records after both passes, and \<open>get_mia_scores\<close>: the predictions and the samples,
  with the state at the end.  \<open>fix_seed\<close> and the progress bars do not touch these
  values and are left out.
\<close>

definition scored_records ::
  "data \<Rightarrow> (string \<times> attack_obj) list \<Rightarrow> model \<Rightarrow> (string \<times> model) list option \<Rightarrow> experiment_config
     \<Rightarrow> nat option \<Rightarrow> nat \<Rightarrow> outcome_error + sample_information list \<times> pstate" where
  "scored_records dat attackers tm ref_models cfg n_samples batch_size =
     (case primary_pass dat tm cfg n_samples batch_size \<lparr>attackers_dict = attackers, events = []\<rparr> of
        Inl e \<Rightarrow> Inl e
      | Inr (results, st) \<Rightarrow> raised (reference_pass cfg ref_models results st))"

definition get_mia_scores ::
  "data \<Rightarrow> (string \<times> attack_obj) list \<Rightarrow> model \<Rightarrow> (string \<times> model) list option \<Rightarrow> experiment_config
     \<Rightarrow> nat option \<Rightarrow> nat \<Rightarrow> outcome_error + (predictions \<times> pyval list) \<times> pstate" where
  "get_mia_scores dat attackers tm ref_models cfg n_samples batch_size =
     (case scored_records dat attackers tm ref_models cfg n_samples batch_size of
        Inl e \<Rightarrow> Inl e
      | Inr (results, st) \<Rightarrow>
          (case aggregate results [] [] of
             Inl e \<Rightarrow> Inl (Raised e)
           | Inr out \<Rightarrow> Inr (out, st)))"

section \<open>Auxiliary functions for the statements\<close>

text \<open>
  The mean of a list of floats the way \<open>PerturbationAttack._attack\<close> computes it: the sum
  accumulated from \<open>0.0\<close> from left to right, each addition rounded, divided by the count.
\<close>

fun float_sum_from :: "real \<Rightarrow> real list \<Rightarrow> real option" where
  "float_sum_from s [] = Some s"
| "float_sum_from s (x # xs) = (case fadd s x of None \<Rightarrow> None | Some s' \<Rightarrow> float_sum_from s' xs)"

definition float_mean :: "real list \<Rightarrow> real option" where
  "float_mean xs =
     (case float_sum_from 0 xs of None \<Rightarrow> None | Some s \<Rightarrow> fdiv s (length xs))"


text \<open>The list under a key of \<open>sample_information\<close>, empty when the key is missing.\<close>

definition scores_at :: "sample_information \<Rightarrow> string \<Rightarrow> pyval list" where
  "scores_at si k = (case map_of si k of Some (PList xs) \<Rightarrow> xs | _ \<Rightarrow> [])"

text \<open>
  The loss of one substring as the substring loop computes it: on the substring, or on its
  decoded text with the substring as tokens.
\<close>

definition loss_of_substr :: "experiment_config \<Rightarrow> model \<Rightarrow> pyval \<Rightarrow> real" where
  "loss_of_substr cfg tm s =
     (if \<not> pretokenized cfg then get_ll tm s (Some (get_probabilities tm s None)) None
      else get_ll tm (decode tm s) (Some (get_probabilities tm (decode tm s) (Some s))) (Some s))"

definition loss_item :: "experiment_config \<Rightarrow> model \<Rightarrow> pyval list \<Rightarrow> nat \<times> pyval \<Rightarrow> real" where
  "loss_item cfg tm detokenized item =
     (if \<not> pretokenized cfg
      then get_ll tm (snd item) (Some (get_probabilities tm (snd item) None)) None
      else get_ll tm (detokenized ! fst item)
             (Some (get_probabilities tm (detokenized ! fst item) (Some (snd item)))) (Some (snd item)))"

definition substr_ctx_of ::
  "experiment_config \<Rightarrow> model \<Rightarrow> (int \<times> pyval) list option \<Rightarrow> nat \<Rightarrow> pyval list \<Rightarrow> nat \<times> pyval \<Rightarrow> substr_ctx" where
  "substr_ctx_of cfg tm nb di detok item =
     (let tx = (if pretokenized cfg then detok ! fst item else snd item);
          tokens = (if pretokenized cfg then Some (snd item) else None)
      in \<lparr>c_config = cfg, c_neighbors = nb, c_doc_index = di, c_i = fst item,
          c_substr = snd item, c_detok = (if pretokenized cfg then Some tx else None),
          c_probs = get_probabilities tm tx tokens, c_loss = loss_item cfg tm detok item\<rparr>)"

definition substr_events :: "experiment_config \<Rightarrow> model \<Rightarrow> pyval list \<Rightarrow> nat \<times> pyval \<Rightarrow> event list" where
  "substr_events cfg tm detok item =
     (let tx = (if pretokenized cfg then detok ! fst item else snd item);
          tokens = (if pretokenized cfg then Some (snd item) else None)
      in [GetProbabilities (model_name tm) tx tokens,
          GetLL (model_name tm) tx (Some (get_probabilities tm tx tokens)) tokens])"

text \<open>The key under which the neighborhood score for a perturbation count is stored.\<close>

definition ne_key :: "int \<Rightarrow> string" where
  "ne_key n = NEIGHBOR @ ''-'' @ str_int n"

text \<open>
  The neighborhood attack on one substring, for one perturbation count: the keyword arguments
  of the call, the lookup \<open>neighbors[n_perturbation][batch * batch_size + idx][i]\<close>, and the score
  that the strategy \<open>a\<close> returns on the substring with the neighbors found.  The last
  definition says that each of the given keys of \<open>sample_information\<close> is missing or holds
  a list, which is what \<open>append\<close> needs.
\<close>

definition neighbor_kwargs :: "substr_ctx \<Rightarrow> pyval \<Rightarrow> kwargs" where
  "neighbor_kwargs c sn = (attack_kwargs c)\<lparr>batch_size_kw := Some 4, substr_neighbors := Some sn\<rparr>"

definition cached_neighbors :: "(int \<times> pyval) list \<Rightarrow> substr_ctx \<Rightarrow> int \<Rightarrow> error + pyval" where
  "cached_neighbors nb c n =
     (case map_of nb n of
        None \<Rightarrow> Inl KeyError
      | Some per_doc \<Rightarrow>
          (case py_getitem per_doc (c_doc_index c) of
             Inl e \<Rightarrow> Inl e
           | Inr per_substr \<Rightarrow> py_getitem per_substr (c_i c)))"

definition neighbor_score :: "attack_obj \<Rightarrow> (int \<times> pyval) list \<Rightarrow> substr_ctx \<Rightarrow> int \<Rightarrow> error + real" where
  "neighbor_score a nb c n =
     (case cached_neighbors nb c n of
        Inl e \<Rightarrow> Inl e
      | Inr sn \<Rightarrow> fst (attack a (c_substr c) (Some (c_probs c)) (neighbor_kwargs c sn)))"

definition holds_lists :: "sample_information \<Rightarrow> string list \<Rightarrow> bool" where
  "holds_lists si ks =
     list_all (\<lambda>k. case map_of si k of None \<Rightarrow> True | Some (PList _) \<Rightarrow> True | Some _ \<Rightarrow> False) ks"

text \<open>What a run returned, if it returned, and the exception otherwise.\<close>

definition returned :: "'e + ('a \<times> pstate) \<Rightarrow> 'a option" where
  "returned r = (case r of Inl _ \<Rightarrow> None | Inr (x, _) \<Rightarrow> Some x)"

definition failure :: "'e + 'a \<Rightarrow> 'e option" where
  "failure r = (case r of Inl e \<Rightarrow> Some e | Inr _ \<Rightarrow> None)"

text \<open>The list of aggregates under a key of the predictions, empty when the key is missing.\<close>

definition preds_at :: "predictions \<Rightarrow> string \<Rightarrow> real list" where
  "preds_at p k = (case map_of p k of None \<Rightarrow> [] | Some xs \<Rightarrow> xs)"

text \<open>
  The minimum the way the spec words it: the least element of the scores of a record under
  an attack key.  \<open>aggregated k r\<close> are the values of the record \<open>r\<close> that are aggregated
  under the key \<open>k\<close>.
\<close>

definition score_list :: "pyval \<Rightarrow> real list" where
  "score_list v = (case v of PList vs \<Rightarrow> (case floats_of vs of None \<Rightarrow> [] | Some xs \<Rightarrow> xs) | _ \<Rightarrow> [])"

definition minimum :: "pyval \<Rightarrow> real" where
  "minimum v = Min (set (score_list v))"

definition aggregated :: "string \<Rightarrow> sample_information \<Rightarrow> pyval list" where
  "aggregated k r = map snd (filter (\<lambda>(a, v). a = k \<and> a \<noteq> ''sample'' \<and> a \<noteq> ''detokenized'') r)"

text \<open>The records that the batch loop visits: whole batches.\<close>

definition processed_records :: "data \<Rightarrow> nat option \<Rightarrow> nat \<Rightarrow> pyval list" where
  "processed_records dat n_samples batch_size =
     take (((case n_samples of None \<Rightarrow> length (records dat) | Some n \<Rightarrow> n) + batch_size - 1)
             div batch_size * batch_size) (records dat)"

text \<open>
  Events by kind: the calls that the pipeline makes on an attack object; the events that
  \<open>attack\<close>, \<open>load\<close> and \<open>unload\<close> produce themselves; every event but the computation of
  token probabilities; the events of the primary pass, where no reference-based strategy is
  called and nothing is unloaded.
\<close>

definition is_call :: "event \<Rightarrow> bool" where
  "is_call e = (case e of AttackCall _ _ _ _ \<Rightarrow> True | AttackUnload _ \<Rightarrow> True | _ \<Rightarrow> False)"

definition own_event :: "event \<Rightarrow> bool" where
  "own_event e =
     (case e of ModelLoad _ \<Rightarrow> True | ModelUnload _ \<Rightarrow> True | GetLL _ _ _ _ \<Rightarrow> True | _ \<Rightarrow> False)"

definition no_probabilities :: "event \<Rightarrow> bool" where
  "no_probabilities e = (case e of GetProbabilities _ _ _ \<Rightarrow> False | _ \<Rightarrow> True)"

definition primary_event :: "event \<Rightarrow> bool" where
  "primary_event e =
     (case e of AttackCall k _ _ _ \<Rightarrow> \<not> prefix REFERENCE_BASED k | AttackUnload _ \<Rightarrow> False | _ \<Rightarrow> True)"

text \<open>
  The calls of the reference pass the way the spec words them: for each configured
  reference model that has a strategy, one call per substring of every record, in order,
  on the stored text (the decoded one when pretokenized) with no probabilities and the
  stored loss; then the strategy is unloaded.
\<close>

definition ref_call :: "experiment_config \<Rightarrow> string \<Rightarrow> sample_information \<Rightarrow> nat \<times> pyval \<Rightarrow> event" where
  "ref_call cfg k r item =
     AttackCall k
       (if pretokenized cfg
        then (case py_getitem (fst (si_get r ''detokenized'')) (fst item) of
                Inr d \<Rightarrow> d | Inl _ \<Rightarrow> snd item)
        else snd item)
       None
       (case py_getitem (fst (si_get r LOSS)) (fst item) of Inr v \<Rightarrow> as_float v | Inl _ \<Rightarrow> None)"

definition ref_calls :: "experiment_config \<Rightarrow> string \<Rightarrow> sample_information \<Rightarrow> event list" where
  "ref_calls cfg k r =
     (case py_iter (fst (si_get r ''sample'')) of
        Inl _ \<Rightarrow> []
      | Inr substrs \<Rightarrow> map (ref_call cfg k r) (zip [0..<length substrs] substrs))"

definition ref_script :: "experiment_config \<Rightarrow> string list \<Rightarrow> string list \<Rightarrow> sample_information list \<Rightarrow> event list" where
  "ref_script cfg keys names results =
     concat (map (\<lambda>name. if ref_key_of name \<in> set keys
                          then concat (map (ref_calls cfg (ref_key_of name)) results)
                                 @ [AttackUnload (ref_key_of name)]
                          else []) names)"

definition skip_message :: string where
  "skip_message = ''No reference models specified, skipping Reference-based attacks''"

text \<open>
  Relations between states and between records, used in the invariants of the loops:
  the events grow by a given list of calls and the keys of \<open>attackers_dict\<close> stay; the
  events grow by events of the primary pass; two records agree outside a set of keys.
\<close>

definition extends :: "pstate \<Rightarrow> pstate \<Rightarrow> event list \<Rightarrow> bool" where
  "extends st st' cs =
     (\<exists>ev. events st' = events st @ ev \<and> filter is_call ev = cs \<and> list_all no_probabilities ev
          \<and> map fst (attackers_dict st') = map fst (attackers_dict st))"

definition grows :: "pstate \<Rightarrow> pstate \<Rightarrow> bool" where
  "grows st st' =
     (\<exists>ev. events st' = events st @ ev \<and> list_all primary_event ev
          \<and> map fst (attackers_dict st') = map fst (attackers_dict st))"

definition agree_except :: "(string \<Rightarrow> bool) \<Rightarrow> sample_information \<Rightarrow> sample_information \<Rightarrow> bool" where
  "agree_except P r r' = (\<forall>k. \<not> P k \<longrightarrow> fst (si_get r' k) = fst (si_get r k))"

definition final_events :: "'e + ('a \<times> pstate) \<Rightarrow> event list option" where
  "final_events r = (case r of Inl _ \<Rightarrow> None | Inr (_, st) \<Rightarrow> Some (events st))"

section \<open>Concrete instances\<close>

text \<open>Small collaborators on which the definitions are evaluated.\<close>

definition const_model :: "string \<Rightarrow> real \<Rightarrow> model" where
  "const_model n l =
     \<lparr>model_name = n, get_ll = (\<lambda>_ _ _. l), get_probabilities = (\<lambda>_ _. []), decode = (\<lambda>v. v)\<rparr>"

definition ex_config :: experiment_config where
  "ex_config = \<lparr>pretokenized = False, max_substrs = 2, full_doc = False,
                 blackbox_attacks = [''loss''], neigh_config = None\<rparr>"

definition no_kwargs :: kwargs where
  "no_kwargs =
     \<lparr>detokenized_sample = None, loss = None, batch_size_kw = None, substr_neighbors = None\<rparr>"

text \<open>The floats that Python writes \<open>0.1\<close> and \<open>0.2\<close>.\<close>

definition float_0_1 :: real where
  "float_0_1 = 3602879701896397 / 36028797018963968"

definition float_0_2 :: real where
  "float_0_2 = 3602879701896397 / 18014398509481984"

definition ex_perturb_attack :: "model list option \<Rightarrow> attack_obj" where
  "ex_perturb_attack pms =
     \<lparr>cls = PerturbationAttack, config = ex_config, target_model = const_model ''target'' 2,
      ref_model = None, perturb_models = pms, is_loaded = False, is_blackbox = True\<rparr>"

definition ex_subclass_attack :: "bool \<Rightarrow> attack_obj" where
  "ex_subclass_attack pt =
     \<lparr>cls = Subclass (\<lambda>_ _ _ _. Inr 1), config = ex_config\<lparr>pretokenized := pt\<rparr>,
      target_model = const_model ''target'' 2,
      ref_model = None, perturb_models = None, is_loaded = False, is_blackbox = True\<rparr>"

definition len_model :: "string \<Rightarrow> model" where
  "len_model n = \<lparr>model_name = n,
     get_ll = (\<lambda>d _ _. case d of PStr s \<Rightarrow> real (length s) | PList xs \<Rightarrow> real (length xs) | _ \<Rightarrow> 0),
     get_probabilities = (\<lambda>_ _. []), decode = (\<lambda>v. v)\<rparr>"

definition ex_attacker :: "experiment_config \<Rightarrow> model option \<Rightarrow> real \<Rightarrow> attack_obj" where
  "ex_attacker cfg rm x =
     \<lparr>cls = Subclass (\<lambda>d p t kw. Inr (case loss kw of Some l \<Rightarrow> l - x | None \<Rightarrow> 0)), config = cfg,
      target_model = len_model ''target'', ref_model = rm, perturb_models = None,
      is_loaded = False, is_blackbox = True\<rparr>"

definition ex_neigh :: neighborhood_config where
  "ex_neigh = \<lparr>n_perturbation_list = [5, 10], load_from_cache = True, dump_cache = False,
                original_tokenization_swap = False\<rparr>"

definition ex_cfg :: experiment_config where
  "ex_cfg = \<lparr>pretokenized = False, max_substrs = 2, full_doc = True,
               blackbox_attacks = [''loss'', ''zlib'', ''ne'', ''ref''], neigh_config = Some ex_neigh\<rparr>"

definition ex_attackers :: "experiment_config \<Rightarrow> (string \<times> attack_obj) list" where
  "ex_attackers cfg = [(''loss'', ex_attacker cfg None 0), (''zlib'', ex_attacker cfg None 1), (''ne'', ex_attacker cfg None 2),
     (''ref-A'', ex_attacker cfg (Some (len_model ''A'')) 3)]"

definition ex_record :: pyval where
  "ex_record = PList [PStr ''abcd'', PStr ''ab'', PStr ''a'']"

definition ex_cache :: "(int \<times> pyval) list" where
  "ex_cache = [(5, PList [PList [PStr ''n'', PStr ''n''], PList [PStr ''n'']]),
               (10, PList [PList [PStr ''n'', PStr ''n''], PList [PStr ''n'']])]"

definition ex_data :: data where
  "ex_data = \<lparr>records = [ex_record, PList [PStr ''xyz'']], neighbors_cache = Some ex_cache\<rparr>"


definition ex_ctx :: "(int \<times> pyval) list option \<Rightarrow> substr_ctx" where
  "ex_ctx nb = \<lparr>c_config = ex_cfg, c_neighbors = nb, c_doc_index = 0, c_i = 0,
                 c_substr = PStr ''abcd'', c_detok = None, c_probs = [], c_loss = 4\<rparr>"

definition ex_state :: pstate where
  "ex_state = \<lparr>attackers_dict = ex_attackers ex_cfg, events = []\<rparr>"

definition ex_get_attacker :: "string \<Rightarrow> error + constructor" where
  "ex_get_attacker a = Inr (\<lambda>cfg tm rm. Inr (ex_attacker cfg rm 1))"

definition ex_refs :: "(string \<times> model) list" where
  "ex_refs = [(''org/A'', len_model ''A''), (''B'', len_model ''B'')]"

definition ex_attackers2 :: "(string \<times> attack_obj) list" where
  "ex_attackers2 = ex_attackers ex_cfg @ [(''ref-B'', ex_attacker ex_cfg (Some (len_model ''B'')) 5)]"

definition ex_preds :: predictions where
  "ex_preds = [(''loss'', [2, 3]), (''zlib'', [1, 2]), (''ne-5'', [0, 1]), (''ne-10'', [0, 1]),
               (''ref-A'', [- 1, 0]), (''ref-B'', [- 3, - 2])]"

definition ex_samples :: "pyval list" where
  "ex_samples = [PList [PStr ''abcd'', PStr ''ab''], PList [PStr ''xyz'']]"

definition ex_pretok_cfg :: experiment_config where
  "ex_pretok_cfg = ex_cfg\<lparr>pretokenized := True, neigh_config := None\<rparr>"

text \<open>
  A neighborhood strategy whose score is the number of neighbors it is given, with a cache
  that holds two neighbors for count 5 and three for count 10.
\<close>

definition nb_attacker :: "experiment_config \<Rightarrow> attack_obj" where
  "nb_attacker cfg =
     \<lparr>cls = Subclass (\<lambda>d p t kw. Inr (case substr_neighbors kw of
                                          Some (PList xs) \<Rightarrow> real (length xs) | _ \<Rightarrow> 0)),
      config = cfg, target_model = len_model ''target'', ref_model = None, perturb_models = None,
      is_loaded = False, is_blackbox = True\<rparr>"

definition nb_cache :: "(int \<times> pyval) list" where
  "nb_cache = [(5, PList [PList [PList [PStr ''n1'', PStr ''n2'']]]),
               (10, PList [PList [PList [PStr ''n1'', PStr ''n2'', PStr ''n3'']]])]"

definition nb_state :: pstate where
  "nb_state = \<lparr>attackers_dict = [(''ne'', nb_attacker ex_cfg)], events = []\<rparr>"

text \<open>
  Pretokenized records: lists of token ids, decoded to one character per token.
\<close>

definition tok_model :: "string \<Rightarrow> model" where
  "tok_model n = (len_model n)\<lparr>decode := (\<lambda>v. case v of PList xs \<Rightarrow> PStr (replicate (length xs) CHR ''t'') | _ \<Rightarrow> v)\<rparr>"

definition tok_data :: data where
  "tok_data = \<lparr>records = [PList [PList [PInt 7, PInt 8], PList [PInt 9]]], neighbors_cache = None\<rparr>"

definition tok_attackers :: "(string \<times> attack_obj) list" where
  "tok_attackers = [(''zlib'', ex_attacker ex_pretok_cfg None 1),
                    (''ref-A'', ex_attacker ex_pretok_cfg (Some (tok_model ''A'')) 3)]"

section \<open>Properties of the attack classes\<close>

lemma load_config [simp]: "config (fst (load s)) = config s"
  by (simp add: load_def split: option.splits)

lemma load_cls [simp]: "cls (fst (load s)) = cls s"
  by (simp add: load_def split: option.splits)

lemma attack_impl_src_errors:
  "cls s = Attack \<or> cls s = PerturbationAttack \<Longrightarrow> fst (attack_impl s d p t k) \<noteq> Inl (ValueError m)"
  by (auto simp: attack_impl_def Attack_attack_impl_def PerturbationAttack_attack_impl_def Let_def
           split: option.splits if_splits)

text \<open>
  Claim C3 says that a perturbation-based strategy built with an empty set of perturbation
  models fails at construction.  The constructor checks nothing: on the empty set it
  returns an object.
\<close>

theorem perturbation_init_empty_succeeds:
  "\<not> isl (PerturbationAttack_init ex_config (const_model ''target'' 2) (Some []))"
  by (simp add: PerturbationAttack_init_def Attack_init_def)

text \<open>
  Claim C3, amended: construction with an empty set of perturbation models returns an
  unloaded strategy, and the failure comes with the call of \<open>attack\<close>: the call raises
  the error of the pretokenized contract when that is violated, and
  \<open>ZeroDivisionError\<close> otherwise; it never returns a score.
\<close>

theorem perturbation_empty_fails_at_attack:
  "PerturbationAttack_init cfg m (Some []) =
      Inr \<lparr>cls = PerturbationAttack, config = cfg, target_model = m, ref_model = None,
           perturb_models = Some [], is_loaded = False, is_blackbox = True\<rparr>
   \<and> fst (attack \<lparr>cls = PerturbationAttack, config = cfg, target_model = m, ref_model = None,
           perturb_models = Some [], is_loaded = False, is_blackbox = True\<rparr> doc probs kw) =
       (if pretokenized cfg \<and> detokenized_sample kw = None
        then Inl (ValueError detok_msg) else Inl ZeroDivisionError)"
  by (auto simp: PerturbationAttack_init_def Attack_init_def attack_def load_def attack_impl_def
        PerturbationAttack_attack_impl_def Let_def split: option.splits bool.splits prod.splits)

lemma float_sum_fold:
  "fold (\<lambda>m acc. case acc of None \<Rightarrow> None | Some s \<Rightarrow> fadd s (f m)) ms acc =
     (case acc of None \<Rightarrow> None | Some s \<Rightarrow> float_sum_from s (map f ms))"
proof (induction ms arbitrary: acc)
  case Nil
  then show ?case by (simp split: option.splits)
next
  case (Cons m ms)
  show ?case
  proof (cases acc)
    case None
    then show ?thesis by (simp add: Cons.IH)
  next
    case (Some s)
    then show ?thesis by (simp add: Cons.IH split: option.splits)
  qed
qed

lemma float_sum_exact:
  "(\<And>k. k \<le> length xs \<Longrightarrow> is_float (s + sum_list (take k xs))) \<Longrightarrow>
     float_sum_from s xs = Some (s + sum_list xs)"
proof (induction xs arbitrary: s)
  case Nil
  then show ?case by simp
next
  case (Cons x xs)
  from Cons.prems[of 1] have a: "fadd s x = Some (s + x)" by (simp add: fadd_def is_float_def)
  have "float_sum_from (s + x) xs = Some (s + x + sum_list xs)"
  proof (rule Cons.IH)
    fix k assume "k \<le> length xs"
    with Cons.prems[of "Suc k"] show "is_float (s + x + sum_list (take k xs))"
      by (simp add: add.assoc)
  qed
  with a show ?case by (simp add: add.assoc)
qed

lemma round64_one: "round64 1 = Some 1"
  by code_simp

text \<open>
  Claim C4 says that the perturbation score equals the target loss minus the arithmetic
  mean of the perturbation models' losses.  The code accumulates and divides in float
  arithmetic: with the target loss \<open>0.1\<close> and three perturbation models that each report
  \<open>0.2\<close>, whose arithmetic mean is \<open>0.2\<close>, the score is \<open>-0.10000000000000003\<close> and not
  the float \<open>0.1 - 0.2 = -0.1\<close>.
\<close>

theorem perturbation_score_rounds:
  "is_float float_0_1 \<and> is_float float_0_2
   \<and> (float_0_2 + float_0_2 + float_0_2) / 3 = float_0_2
   \<and> float_0_1 - float_0_2 = - float_0_1
   \<and> fst (PerturbationAttack_attack_impl
            (ex_perturb_attack (Some [const_model ''p1'' float_0_2, const_model ''p2'' float_0_2,
                                      const_model ''p3'' float_0_2]))
            (PStr ''The cat sat.'') None None (no_kwargs\<lparr>loss := Some float_0_1\<rparr>))
       = Inr (- (1801439850948199 / 18014398509481984))
   \<and> - (1801439850948199 / 18014398509481984) \<noteq> float_0_1 - float_0_2"
  by code_simp

text \<open>
  Claim C4, amended: with a non-empty set of perturbation models the perturbation score
  is, in float arithmetic, the target loss minus the mean that the code computes (the
  perturbation models' losses on the same document added to \<open>0.0\<close> in iteration order, the
  sum divided by their count, every operation rounded); it is not finite when one of these
  results is not.  For a single perturbation model that reports the float \<open>L_p\<close> and a
  target loss \<open>L\<close> the score is exactly the float difference \<open>L - L_p\<close> (target loss
  \<open>2.0\<close> and perturbation loss \<open>3.0\<close> give \<open>-1.0\<close>); and whenever the partial sums, the
  count, the mean and the difference are floats themselves, the score is the target loss
  minus the arithmetic mean.  When the caller passes a loss, the only calls made are one
  \<open>get_ll\<close> per perturbation model (with \<open>probs = None\<close>): the target model's loss is not
  recomputed.  Otherwise the target loss is computed first.
\<close>

theorem perturbation_score:
  assumes "perturb_models self = Some ms" and "ms \<noteq> []"
  shows "PerturbationAttack_attack_impl self d probs tokens kw =
           ((case float_mean (map (\<lambda>m. get_ll m d None tokens) ms) of
               None \<Rightarrow> Inl NotFinite
             | Some mean \<Rightarrow>
                 (case fsub (case loss kw of Some l \<Rightarrow> l
                             | None \<Rightarrow> get_ll (target_model self) d probs tokens) mean of
                    None \<Rightarrow> Inl NotFinite
                  | Some score \<Rightarrow> Inr score)),
            (case loss kw of Some l \<Rightarrow> []
             | None \<Rightarrow> [GetLL (model_name (target_model self)) d probs tokens])
              @ map (\<lambda>m. GetLL (model_name m) d None tokens) ms)
         \<and> (\<forall>m. ms = [m] \<and> is_float (get_ll m d None tokens) \<longrightarrow>
               fst (PerturbationAttack_attack_impl self d probs tokens kw) =
                 (case fsub (case loss kw of Some l \<Rightarrow> l
                             | None \<Rightarrow> get_ll (target_model self) d probs tokens)
                         (get_ll m d None tokens) of
                    None \<Rightarrow> Inl NotFinite
                  | Some score \<Rightarrow> Inr score))
         \<and> ((\<forall>k\<le>length ms. is_float (sum_list (take k (map (\<lambda>m. get_ll m d None tokens) ms))))
              \<and> is_float (real (length ms))
              \<and> is_float ((\<Sum>m\<leftarrow>ms. get_ll m d None tokens) / real (length ms))
              \<and> is_float ((case loss kw of Some l \<Rightarrow> l
                            | None \<Rightarrow> get_ll (target_model self) d probs tokens)
                           - (\<Sum>m\<leftarrow>ms. get_ll m d None tokens) / real (length ms)) \<longrightarrow>
               fst (PerturbationAttack_attack_impl self d probs tokens kw) =
                 Inr ((case loss kw of Some l \<Rightarrow> l
                       | None \<Rightarrow> get_ll (target_model self) d probs tokens)
                      - (\<Sum>m\<leftarrow>ms. get_ll m d None tokens) / real (length ms)))"
proof -
  let ?L = "case loss kw of Some l \<Rightarrow> l | None \<Rightarrow> get_ll (target_model self) d probs tokens"
  let ?xs = "map (\<lambda>m. get_ll m d None tokens) ms"
  let ?out = "case float_mean ?xs of
               None \<Rightarrow> Inl NotFinite
             | Some mean \<Rightarrow> (case fsub ?L mean of None \<Rightarrow> Inl NotFinite | Some score \<Rightarrow> Inr score)"
  have eq: "PerturbationAttack_attack_impl self d probs tokens kw =
           (?out, (case loss kw of Some l \<Rightarrow> []
             | None \<Rightarrow> [GetLL (model_name (target_model self)) d probs tokens])
              @ map (\<lambda>m. GetLL (model_name m) d None tokens) ms)"
    using assms
    by (cases "loss kw")
       (simp_all add: PerturbationAttack_attack_impl_def Let_def float_sum_fold float_mean_def
          split: option.splits)
  have single: "?out = (case fsub ?L (get_ll m d None tokens) of
                    None \<Rightarrow> Inl NotFinite | Some score \<Rightarrow> Inr score)"
    if "ms = [m]" "is_float (get_ll m d None tokens)" for m
    using that by (simp add: float_mean_def fadd_def fdiv_def is_float_def round64_one)
  have exact: "?out = Inr (?L - sum_list ?xs / real (length ms))"
    if a: "\<forall>k\<le>length ms. is_float (sum_list (take k ?xs))"
      and b: "is_float (real (length ms))"
      and c: "is_float (sum_list ?xs / real (length ms))"
      and e: "is_float (?L - sum_list ?xs / real (length ms))"
  proof -
    have "float_sum_from 0 ?xs = Some (0 + sum_list ?xs)"
      by (rule float_sum_exact) (use a in simp)
    with b c have "float_mean ?xs = Some (sum_list ?xs / real (length ms))"
      by (simp add: float_mean_def fdiv_def is_float_def)
    with e show ?thesis by (simp add: fsub_def is_float_def)
  qed
  show ?thesis
  proof (intro conjI allI impI)
    show "PerturbationAttack_attack_impl self d probs tokens kw =
           (?out, (case loss kw of Some l \<Rightarrow> []
             | None \<Rightarrow> [GetLL (model_name (target_model self)) d probs tokens])
              @ map (\<lambda>m. GetLL (model_name m) d None tokens) ms)"
      by (rule eq)
  next
    fix m assume "ms = [m] \<and> is_float (get_ll m d None tokens)"
    then show "fst (PerturbationAttack_attack_impl self d probs tokens kw) =
                 (case fsub ?L (get_ll m d None tokens) of
                    None \<Rightarrow> Inl NotFinite | Some score \<Rightarrow> Inr score)"
      unfolding eq fst_conv using single[of m] by simp
  next
    assume "(\<forall>k\<le>length ms. is_float (sum_list (take k ?xs)))
              \<and> is_float (real (length ms))
              \<and> is_float ((\<Sum>m\<leftarrow>ms. get_ll m d None tokens) / real (length ms))
              \<and> is_float (?L - (\<Sum>m\<leftarrow>ms. get_ll m d None tokens) / real (length ms))"
    then show "fst (PerturbationAttack_attack_impl self d probs tokens kw) =
                 Inr (?L - (\<Sum>m\<leftarrow>ms. get_ll m d None tokens) / real (length ms))"
      unfolding eq fst_conv using exact by simp
  qed
qed

theorem perturbation_score_witness:
  "perturb_models (ex_perturb_attack (Some [const_model ''p'' 3])) = Some [const_model ''p'' 3]
   \<and> [const_model ''p'' 3] \<noteq> []
   \<and> is_float 3
   \<and> fsub 2 3 = Some (- 1)
   \<and> PerturbationAttack_attack_impl (ex_perturb_attack (Some [const_model ''p'' 3]))
        (PStr ''The cat sat.'') None None (no_kwargs\<lparr>loss := Some 2\<rparr>)
      = (Inr (- 1), [GetLL ''p'' (PStr ''The cat sat.'') None None])"
proof -
  have a: "perturb_models (ex_perturb_attack (Some [const_model ''p'' 3])) = Some [const_model ''p'' 3]"
    by (simp add: ex_perturb_attack_def)
  have b: "[const_model ''p'' 3] \<noteq> []" by simp
  have c: "is_float 3" by code_simp
  have e: "fsub 2 3 = Some (- 1)" by code_simp
  have g: "get_ll (const_model ''p'' 3) (PStr ''The cat sat.'') None None = 3"
    "model_name (const_model ''p'' 3) = ''p''"
    by (simp_all add: const_model_def)
  have f: "fst (PerturbationAttack_attack_impl (ex_perturb_attack (Some [const_model ''p'' 3]))
        (PStr ''The cat sat.'') None None (no_kwargs\<lparr>loss := Some 2\<rparr>)) = Inr (- 1)"
    using perturbation_score [OF a b, of "PStr ''The cat sat.''" None None "no_kwargs\<lparr>loss := Some 2\<rparr>",
            THEN conjunct2, THEN conjunct1, rule_format, of "const_model ''p'' 3"] c e g
    by (simp add: no_kwargs_def)
  have h: "snd (PerturbationAttack_attack_impl (ex_perturb_attack (Some [const_model ''p'' 3]))
        (PStr ''The cat sat.'') None None (no_kwargs\<lparr>loss := Some 2\<rparr>))
      = [GetLL ''p'' (PStr ''The cat sat.'') None None]"
    using perturbation_score [OF a b, of "PStr ''The cat sat.''" None None "no_kwargs\<lparr>loss := Some 2\<rparr>",
            THEN conjunct1] g
    by (simp add: no_kwargs_def)
  from f h have "PerturbationAttack_attack_impl (ex_perturb_attack (Some [const_model ''p'' 3]))
        (PStr ''The cat sat.'') None None (no_kwargs\<lparr>loss := Some 2\<rparr>)
      = (Inr (- 1), [GetLL ''p'' (PStr ''The cat sat.'') None None])"
    by (simp add: prod_eq_iff)
  with a b c e show ?thesis by simp
qed

text \<open>
  Claim C6: \<open>attack\<close> raises the error of the pretokenized contract exactly when the
  configuration is pretokenized and no \<open>detokenized_sample\<close> is passed (for the two
  classes of the sources, and for any subclass whose own scoring function does not raise
  that same error); when the configuration is not pretokenized the outcome of \<open>attack\<close>
  is the outcome of the scoring function on the document, whatever \<open>detokenized_sample\<close>
  is.
\<close>

theorem attack_pretokenized_contract:
  assumes "\<forall>f d p t k. cls self = Subclass f \<longrightarrow> f d p t k \<noteq> Inl (ValueError detok_msg)"
  shows "(fst (attack self doc probs kw) = Inl (ValueError detok_msg)
            \<longleftrightarrow> pretokenized (config self) \<and> detokenized_sample kw = None)
         \<and> (\<not> pretokenized (config self) \<longrightarrow>
              fst (attack self doc probs kw) =
              fst (attack_impl (if is_loaded self then self else (fst (load self))\<lparr>is_loaded := True\<rparr>)
                     doc probs None kw))"
proof -
  have impl: "fst (attack_impl s d p t k) \<noteq> Inl (ValueError detok_msg)" if "cls s = cls self" for s d p t k
  proof (cases "cls self")
    case (Subclass f)
    with that assms show ?thesis by (simp add: attack_impl_def)
  qed (use that attack_impl_src_errors [of s] in auto)
  show ?thesis
    using impl [of "(fst (load self))\<lparr>is_loaded := True\<rparr>"] impl [of self]
    by (auto simp: attack_def Let_def case_prod_beta split: option.splits bool.splits)
qed

theorem attack_pretokenized_contract_witness:
  "fst (attack (ex_subclass_attack True) (PList [PInt 1]) None no_kwargs) = Inl (ValueError detok_msg)
   \<and> fst (attack (ex_subclass_attack True) (PList [PInt 1]) None
            (no_kwargs\<lparr>detokenized_sample := Some (PStr ''a'')\<rparr>)) = Inr 1
   \<and> fst (attack (ex_subclass_attack False) (PStr ''a'') None no_kwargs) = Inr 1"
  using attack_pretokenized_contract [of "ex_subclass_attack True" "PList [PInt 1]" None no_kwargs]
        attack_pretokenized_contract [of "ex_subclass_attack True" "PList [PInt 1]" None
           "no_kwargs\<lparr>detokenized_sample := Some (PStr ''a'')\<rparr>"]
        attack_pretokenized_contract [of "ex_subclass_attack False" "PStr ''a''" None no_kwargs]
  by (simp add: ex_subclass_attack_def ex_config_def no_kwargs_def attack_def load_def attack_impl_def)

text \<open>
  Claim C9: after \<open>attack\<close> the strategy is loaded, whatever the outcome.  On a strategy
  that is not loaded, \<open>attack\<close> is \<open>load\<close> followed by \<open>attack\<close> on the loaded
  strategy: the events of \<open>load\<close> come first, then those of the scoring.  A loaded
  strategy is left as it is.
\<close>

theorem attack_loads_first:
  "is_loaded (fst (snd (attack self d p kw)))
   \<and> (\<not> is_loaded self \<longrightarrow>
        fst (snd (attack self d p kw)) = (fst (load self))\<lparr>is_loaded := True\<rparr>
      \<and> fst (attack self d p kw) = fst (attack ((fst (load self))\<lparr>is_loaded := True\<rparr>) d p kw)
      \<and> snd (snd (attack self d p kw)) =
          snd (load self) @ snd (snd (attack ((fst (load self))\<lparr>is_loaded := True\<rparr>) d p kw)))
   \<and> (is_loaded self \<longrightarrow> fst (snd (attack self d p kw)) = self)"
  by (auto simp: attack_def Let_def case_prod_beta split: option.splits bool.splits)

theorem attack_loads_first_witness:
  "\<not> is_loaded (ex_perturb_attack (Some [const_model ''p'' 3]))
   \<and> is_loaded (fst (snd (attack (ex_perturb_attack (Some [const_model ''p'' 3])) (PStr ''a'') None no_kwargs)))
   \<and> snd (snd (attack (ex_perturb_attack (Some [const_model ''p'' 3])) (PStr ''a'') None no_kwargs))
       = [ModelLoad ''p'', GetLL ''target'' (PStr ''a'') None None, GetLL ''p'' (PStr ''a'') None None]"
  using attack_loads_first [of "ex_perturb_attack (Some [const_model ''p'' 3])" "PStr ''a''" None no_kwargs]
  by (simp add: ex_perturb_attack_def ex_config_def no_kwargs_def const_model_def attack_def load_def
        attack_impl_def PerturbationAttack_attack_impl_def)

text \<open>
  Claim C10: a strategy constructed with neither a reference model nor perturbation
  models is not loaded; \<open>load\<close> and \<open>unload\<close> change nothing on it and call no model,
  whether the flag is set or not; \<open>attack\<close> sets the flag.
\<close>

theorem load_without_submodels_noop:
  assumes "Attack_init c cfg tm None None bb = Inr s"
  shows "\<not> is_loaded s \<and> load s = (s, []) \<and> unload s = (s, [])
         \<and> load (s\<lparr>is_loaded := True\<rparr>) = (s\<lparr>is_loaded := True\<rparr>, [])
         \<and> unload (s\<lparr>is_loaded := True\<rparr>) = (s\<lparr>is_loaded := True\<rparr>, [])
         \<and> is_loaded (fst (snd (attack s d p kw)))"
  using assms
  by (auto simp: Attack_init_def load_def unload_def attack_def Let_def
           split: prod.splits option.splits bool.splits)

theorem load_without_submodels_noop_witness:
  "Attack_init (Subclass (\<lambda>_ _ _ _. Inr 1)) ex_config (const_model ''target'' 2) None None True
      = Inr (ex_subclass_attack False)
   \<and> \<not> is_loaded (fst (load (ex_subclass_attack False)))
   \<and> is_loaded (fst (snd (attack (ex_subclass_attack False) (PStr ''a'') None no_kwargs)))"
proof -
  have h: "Attack_init (Subclass (\<lambda>_ _ _ _. Inr 1)) ex_config (const_model ''target'' 2) None None True
      = Inr (ex_subclass_attack False)"
    by (simp add: Attack_init_def ex_subclass_attack_def ex_config_def)
  show ?thesis using h load_without_submodels_noop [OF h, of "PStr ''a''" None no_kwargs] by simp
qed

section \<open>Properties of the scoring pipeline\<close>

lemma map_of_dict_set: "map_of (dict_set d k v) k' = (if k' = k then Some v else map_of d k')"
  by (induction d) auto

lemma dict_set_fresh: "map_of d k = None \<Longrightarrow> dict_set d k v = d @ [(k, v)]"
  by (induction d) (auto split: if_splits)

lemma keys_dict_set_present: "map_of d k = Some w \<Longrightarrow> map fst (dict_set d k v) = map fst d"
  by (induction d) (auto split: if_splits)

lemma si_append_eq:
  "si_append si k x = Inr si' \<Longrightarrow> si' = dict_set si k (PList (scores_at si k @ [x]))"
  by (auto simp: si_append_def scores_at_def dict_set_fresh split: option.splits pyval.splits)

lemma si_append_other:
  "si_append si k x = Inr si' \<Longrightarrow> k' \<noteq> k \<Longrightarrow> map_of si' k' = map_of si k'"
  by (drule si_append_eq) (simp add: map_of_dict_set)

lemma si_append_same:
  "si_append si k x = Inr si' \<Longrightarrow> scores_at si' k = scores_at si k @ [x]"
  by (drule si_append_eq) (simp add: map_of_dict_set scores_at_def)

lemma neighbor_loop_other:
  "neighbor_loop c nc ns si st = Inr (si', st') \<Longrightarrow> \<not> prefix ''ne-'' k \<Longrightarrow> map_of si' k = map_of si k"
proof (induction ns arbitrary: si st)
  case Nil
  then show ?case by simp
next
  case (Cons n ns)
  show ?case
  proof (cases "\<exists>nb. c_neighbors c = Some nb \<and> nb \<noteq> [] \<and> \<not> dump_cache nc")
    case False
    with Cons show ?thesis by (auto split: option.splits)
  next
    case True
    then obtain nb where nb: "c_neighbors c = Some nb" "nb \<noteq> []" "\<not> dump_cache nc" by blast
    from Cons.prems(1) nb obtain si1 st1 score where
      app: "si_append si (NEIGHBOR @ ''-'' @ str_int n) (PFloat score) = Inr si1"
      and rest: "neighbor_loop c nc ns si1 st1 = Inr (si', st')"
      by (auto split: option.splits sum.splits prod.splits)
    have "k \<noteq> NEIGHBOR @ ''-'' @ str_int n"
      using Cons.prems(2) by (auto simp: NEIGHBOR_def)
    with app have "map_of si1 k = map_of si k" by (rule si_append_other[OF _ ])
    with Cons.IH[OF rest Cons.prems(2)] show ?thesis by simp
  qed
qed

lemma attack_loop_other:
  "attack_loop c as si st = Inr (si', st') \<Longrightarrow> k = ''sample'' \<or> k = LOSS \<Longrightarrow> map_of si' k = map_of si k"
proof (induction as arbitrary: si st)
  case Nil
  then show ?case by simp
next
  case (Cons a as)
  consider (skip) "prefix REFERENCE_BASED a \<or> a = LOSS"
    | (plain) "\<not> (prefix REFERENCE_BASED a \<or> a = LOSS)" "a \<noteq> NEIGHBOR"
    | (ne) "\<not> (prefix REFERENCE_BASED a \<or> a = LOSS)" "a = NEIGHBOR" by blast
  then show ?case
  proof cases
    case skip
    with Cons show ?thesis by auto
  next
    case plain
    with Cons.prems(1) obtain score st1 si1 where
      app: "si_append si a (PFloat score) = Inr si1" and ns: "a \<noteq> ''sample''"
      and rest: "attack_loop c as si1 st1 = Inr (si', st')"
      by (auto split: sum.splits prod.splits if_splits)
    from plain ns Cons.prems(2) have "k \<noteq> a" by auto
    with app have "map_of si1 k = map_of si k" using si_append_other by blast
    with Cons.IH[OF rest Cons.prems(2)] show ?thesis by simp
  next
    case ne
    with Cons.prems(1) obtain nc si1 st1 where
      nl: "neighbor_loop c nc (n_perturbation_list nc) si st = Inr (si1, st1)"
      and rest: "attack_loop c as si1 st1 = Inr (si', st')"
      by (auto split: sum.splits prod.splits option.splits)
    have "\<not> prefix ''ne-'' k" using Cons.prems(2) by (auto simp: LOSS_def)
    with nl have "map_of si1 k = map_of si k" by (rule neighbor_loop_other)
    with Cons.IH[OF rest Cons.prems(2)] show ?thesis by simp
  qed
qed
lemma scores_at_cong: "map_of si' k = map_of si k \<Longrightarrow> scores_at si' k = scores_at si k"
  by (simp add: scores_at_def)

lemma score_substr_eq:
  "score_substr cfg tm nb di detok item si st =
     (if pretokenized cfg \<and> \<not> fst item < length detok then Inl (Raised IndexError)
      else case si_append si LOSS (PFloat (loss_item cfg tm detok item)) of
             Inl e \<Rightarrow> Inl (Raised e)
           | Inr si1 \<Rightarrow>
               attack_loop (substr_ctx_of cfg tm nb di detok item) (map fst (attackers_dict st)) si1
                 (st\<lparr>events := events st @ substr_events cfg tm detok item\<rparr>))"
  by (cases item)
     (simp add: score_substr_def loss_item_def substr_ctx_of_def substr_events_def py_getitem_def Let_def
           split: sum.splits)
lemma score_substr_keys:
  assumes "score_substr cfg tm nb di detok item si st = Inr (si', st')"
  shows "map_of si' ''sample'' = map_of si ''sample''
         \<and> scores_at si' LOSS = scores_at si LOSS @ [PFloat (loss_item cfg tm detok item)]"
proof -
  from assms obtain si1 where
    app: "si_append si LOSS (PFloat (loss_item cfg tm detok item)) = Inr si1"
    and loop: "attack_loop (substr_ctx_of cfg tm nb di detok item) (map fst (attackers_dict st)) si1
                 (st\<lparr>events := events st @ substr_events cfg tm detok item\<rparr>) = Inr (si', st')"
    unfolding score_substr_eq by (auto split: if_splits sum.splits)
  have a: "map_of si1 ''sample'' = map_of si ''sample''"
    by (rule si_append_other[OF app]) (simp add: LOSS_def)
  have b: "scores_at si1 LOSS = scores_at si LOSS @ [PFloat (loss_item cfg tm detok item)]"
    by (rule si_append_same[OF app])
  have c: "map_of si' ''sample'' = map_of si1 ''sample''"
    by (rule attack_loop_other[OF loop]) simp
  have "map_of si' LOSS = map_of si1 LOSS"
    by (rule attack_loop_other[OF loop]) simp
  then have d: "scores_at si' LOSS = scores_at si1 LOSS"
    by (rule scores_at_cong)
  from a b c d show ?thesis by simp
qed
lemma substr_loop_keys:
  "substr_loop cfg tm nb di detok items si st = Inr (si', st') \<Longrightarrow>
     map_of si' ''sample'' = map_of si ''sample''
     \<and> scores_at si' LOSS = scores_at si LOSS @ map (\<lambda>item. PFloat (loss_item cfg tm detok item)) items"
proof (induction items arbitrary: si st)
  case Nil
  then show ?case by simp
next
  case (Cons item items)
  from Cons.prems obtain si1 st1 where
    one: "score_substr cfg tm nb di detok item si st = Inr (si1, st1)"
    and rest: "substr_loop cfg tm nb di detok items si1 st1 = Inr (si', st')"
    by (auto split: sum.splits prod.splits)
  from score_substr_keys[OF one] Cons.IH[OF rest] show ?case by simp
qed

lemma loss_item_enumerate:
  "map (\<lambda>item. PFloat (loss_item cfg tm (if pretokenized cfg then map (decode tm) substrs else []) item))
       (zip [0..<length substrs] substrs)
   = map (\<lambda>s. PFloat (loss_of_substr cfg tm s)) substrs"
  by (rule nth_equalityI) (auto simp: loss_item_def loss_of_substr_def)


text \<open>
  Claim C1 says that the record is truncated to \<open>max_substrs\<close> substrings when
  full-document mode is not set and used whole when it is set.  The code does the
  opposite: with \<open>full_doc = False\<close> a record of three pieces is scored as one
  substring, and with \<open>full_doc = True\<close> its first two pieces are scored.
\<close>

theorem sample_whole_without_full_doc:
  "full_doc (ex_cfg\<lparr>full_doc := False\<rparr>) = False
   \<and> returned (process_document (ex_cfg\<lparr>full_doc := False\<rparr>) (len_model ''target'') None 0 ex_record
                  \<lparr>attackers_dict = [], events = []\<rparr>)
       = Some [(''sample'', PList [ex_record]), (''loss'', PList [PFloat 3])]
   \<and> slice_to ex_record (max_substrs ex_cfg) = Inr (PList [PStr ''abcd'', PStr ''ab''])
   \<and> full_doc ex_cfg = True
   \<and> returned (process_document ex_cfg (len_model ''target'') None 0 ex_record
                  \<lparr>attackers_dict = [], events = []\<rparr>)
       = Some [(''sample'', PList [PStr ''abcd'', PStr ''ab'']), (''loss'', PList [PFloat 4, PFloat 2])]"
  by code_simp

lemma returnedD: "returned r = Some x \<Longrightarrow> \<exists>st. r = Inr (x, st)"
  by (auto simp: returned_def split: sum.splits)

lemma process_document_keys:
  assumes "process_document cfg tm nb di text st = Inr (si, st')"
  shows "\<exists>sample substrs.
           (if full_doc cfg then slice_to text (max_substrs cfg) else Inr (PList [text])) = Inr sample
         \<and> py_iter sample = Inr substrs
         \<and> map_of si ''sample'' = Some sample
         \<and> scores_at si LOSS = map (\<lambda>s. PFloat (loss_of_substr cfg tm s)) substrs"
proof -
  from assms obtain sample substrs where
    s: "sample_of cfg text = Inr sample" and it: "py_iter sample = Inr substrs"
    by (auto simp: process_document_def split: sum.splits)
  define si1 where "si1 = (if pretokenized cfg
                     then dict_set (dict_set [] ''sample'' sample) ''detokenized''
                            (PList (if pretokenized cfg then map (decode tm) substrs else []))
                     else dict_set [] ''sample'' sample)"
  define st1 where "st1 = (if pretokenized cfg
                           then st\<lparr>events := events st @ map (Decode (model_name tm)) substrs\<rparr>
                           else st)"
  from assms s it have
    loop: "substr_loop cfg tm nb di (if pretokenized cfg then map (decode tm) substrs else [])
                 (zip [0..<length substrs] substrs) si1 st1 = Inr (si, st')"
    by (cases "pretokenized cfg") (simp_all add: process_document_def Let_def si1_def st1_def)
  have a: "map_of si1 ''sample'' = Some sample" and b: "scores_at si1 LOSS = []"
    by (auto simp: si1_def scores_at_def LOSS_def)
  from substr_loop_keys[OF loop] a b loss_item_enumerate[of cfg tm substrs]
  have "map_of si ''sample'' = Some sample
        \<and> scores_at si LOSS = map (\<lambda>s. PFloat (loss_of_substr cfg tm s)) substrs" by simp
  with s it show ?thesis by (auto simp: sample_of_def)
qed


text \<open>
  Claim C1, amended: in the document loop the substring list is the truncation
  \<open>texts[idx][:max_substrs]\<close> exactly when \<open>full_doc\<close> is set, and the one-element list
  \<open>[texts[idx]]\<close> exactly when it is not.  That list is stored under \<open>sample\<close>, and its
  elements are the substrings scored: the losses under \<open>LOSS\<close> are theirs, in order.
\<close>

theorem process_document_sample:
  assumes "process_document cfg tm nb di text st = Inr (si, st')"
  shows "\<exists>sample substrs.
           (if full_doc cfg then slice_to text (max_substrs cfg) else Inr (PList [text])) = Inr sample
         \<and> py_iter sample = Inr substrs
         \<and> map_of si ''sample'' = Some sample
         \<and> scores_at si LOSS = map (\<lambda>s. PFloat (loss_of_substr cfg tm s)) substrs"
  using assms by (rule process_document_keys)

theorem process_document_sample_witness:
  "\<exists>sample substrs.
       (if full_doc ex_cfg then slice_to ex_record (max_substrs ex_cfg) else Inr (PList [ex_record])) = Inr sample
     \<and> py_iter sample = Inr substrs
     \<and> map_of [(''sample'', PList [PStr ''abcd'', PStr ''ab'']), (''loss'', PList [PFloat 4, PFloat 2])] ''sample'' = Some sample
     \<and> scores_at [(''sample'', PList [PStr ''abcd'', PStr ''ab'']), (''loss'', PList [PFloat 4, PFloat 2])] LOSS
          = map (\<lambda>s. PFloat (loss_of_substr ex_cfg (len_model ''target'') s)) substrs"
proof -
  have "returned (process_document ex_cfg (len_model ''target'') None 0 ex_record
                  \<lparr>attackers_dict = [], events = []\<rparr>)
       = Some [(''sample'', PList [PStr ''abcd'', PStr ''ab'']), (''loss'', PList [PFloat 4, PFloat 2])]"
    by code_simp
  from returnedD [OF this] obtain st' where
    "process_document ex_cfg (len_model ''target'') None 0 ex_record \<lparr>attackers_dict = [], events = []\<rparr>
       = Inr ([(''sample'', PList [PStr ''abcd'', PStr ''ab'']), (''loss'', PList [PFloat 4, PFloat 2])], st')"
    by (rule exE)
  from process_document_sample [OF this] show ?thesis .
qed

lemma neighbor_loop_skip:
  "c_neighbors c = None \<or> c_neighbors c = Some [] \<or> dump_cache nc \<Longrightarrow>
     neighbor_loop c nc ns si st = Inr (si, st)"
  by (induction ns) (auto split: option.splits)

text \<open>
  Claim C2 (an identifier that is not implemented is excluded): \<open>get_attackers\<close> reports
  the identifier \<open>foo\<close> and keeps it; an attacker is constructed for it, and its key is
  among the keys of the predictions.
\<close>

theorem get_attackers_keeps_unimplemented:
  "''foo'' \<notin> set BlackBoxAttacks
   \<and> runnable_attacks [''loss'', ''foo'']
       = ([''loss'', ''foo''], [Print ''Attack foo not implemented, will be ignored''])
   \<and> map_sum id (map fst)
        (fst (get_attackers ex_get_attacker (len_model ''target'') None (ex_cfg\<lparr>blackbox_attacks := [''loss'', ''foo'']\<rparr>)))
       = Inr [''loss'', ''foo'']
   \<and> map_option (\<lambda>out. map fst (fst out))
        (returned (get_mia_scores ex_data
           [(''loss'', ex_attacker ex_cfg None 0), (''foo'', ex_attacker ex_cfg None 1)]
           (len_model ''target'') None ex_cfg None 50)) = Some [''loss'', ''foo'']"
  by code_simp

lemma floats_of_Some: "floats_of vs = Some xs \<Longrightarrow> vs = map PFloat xs"
proof (induction vs arbitrary: xs)
  case Nil
  then show ?case by simp
next
  case (Cons v vs)
  then show ?case by (cases v) (auto split: option.splits)
qed

lemma floats_of_map [simp]: "floats_of (map PFloat xs) = Some xs"
  by (induction xs) auto

lemma np_min_Inr:
  assumes "np_min v = Inr m"
  shows "\<exists>x xs. v = PList (map PFloat (x # xs)) \<and> m = Min (set (x # xs)) \<and> m = minimum v"
proof -
  from assms obtain vs x xs where v: "v = PList vs" and f: "floats_of vs = Some (x # xs)"
    and m: "m = fold min xs x"
    by (auto simp: np_min_def split: pyval.splits option.splits list.splits)
  from f have vs: "vs = map PFloat (x # xs)" by (rule floats_of_Some)
  have a: "m = Min (set (x # xs))" unfolding m by (rule Min.set_eq_fold [symmetric])
  have "score_list v = x # xs" unfolding score_list_def v vs by simp
  then have b: "minimum v = Min (set (x # xs))" unfolding minimum_def by (rule arg_cong)
  have "v = PList (map PFloat (x # xs)) \<and> m = Min (set (x # xs)) \<and> m = minimum v"
    using a b v vs by simp
  then show ?thesis by (intro exI)
qed

lemma preds_at_append:
  "preds_at (pred_append p k x) k' = (if k' = k then preds_at p k @ [x] else preds_at p k')"
  by (auto simp: pred_append_def preds_at_def map_of_dict_set split: option.splits)

lemma keys_dict_set: "fst ` set (dict_set d k v) = insert k (fst ` set d)"
proof (induction d)
  case Nil
  then show ?case by simp
next
  case (Cons a d)
  then show ?case by (cases a) (simp add: insert_commute)
qed

lemma keys_pred_append: "fst ` set (pred_append p k x) = insert k (fst ` set p)"
proof (cases "map_of p k")
  case None
  then show ?thesis by (simp add: pred_append_def)
next
  case (Some xs)
  then show ?thesis by (simp add: pred_append_def keys_dict_set)
qed

lemma aggregate_items_preds:
  "aggregate_items items p = Inr p' \<Longrightarrow>
     preds_at p' k = preds_at p k @ map minimum (aggregated k items)
     \<and> fst ` set p' = fst ` set p \<union> {a \<in> fst ` set items. a \<noteq> ''sample'' \<and> a \<noteq> ''detokenized''}
     \<and> (\<forall>v \<in> set (aggregated k items). \<exists>x xs. v = PList (map PFloat (x # xs)))"
proof (induction items arbitrary: p)
  case Nil
  then show ?case by (simp add: aggregated_def)
next
  case (Cons item items)
  obtain a v where item: "item = (a, v)" by (cases item)
  show ?case
  proof (cases "a \<noteq> ''sample'' \<and> a \<noteq> ''detokenized''")
    case False
    with Cons.prems item have "aggregate_items items p = Inr p'" by auto
    from Cons.IH[OF this] False item show ?thesis by (auto simp: aggregated_def)
  next
    case True
    with Cons.prems item obtain m where m: "np_min v = Inr m"
      and rest: "aggregate_items items (pred_append p a m) = Inr p'"
      by (auto split: sum.splits)
    from np_min_Inr[OF m] obtain x xs where v: "v = PList (map PFloat (x # xs))" and mv: "m = minimum v"
      by blast
    have agg: "aggregated k (item # items) = (if a = k then v # aggregated k items else aggregated k items)"
      using True item by (auto simp: aggregated_def)
    from Cons.IH[OF rest] have
      ih1: "preds_at p' k = preds_at (pred_append p a m) k @ map minimum (aggregated k items)"
      and ih2: "fst ` set p' = fst ` set (pred_append p a m)
                  \<union> {a \<in> fst ` set items. a \<noteq> ''sample'' \<and> a \<noteq> ''detokenized''}"
      and ih3: "\<forall>v \<in> set (aggregated k items). \<exists>x xs. v = PList (map PFloat (x # xs))"
      by simp_all
    have c1: "preds_at p' k = preds_at p k @ map minimum (aggregated k (item # items))"
      unfolding ih1 agg preds_at_append mv by simp
    have c2: "fst ` set p' = fst ` set p
                \<union> {a \<in> fst ` set (item # items). a \<noteq> ''sample'' \<and> a \<noteq> ''detokenized''}"
      unfolding ih2 keys_pred_append using True item by auto
    have c3: "\<forall>v \<in> set (aggregated k (item # items)). \<exists>x xs. v = PList (map PFloat (x # xs))"
      unfolding agg using ih3 v by auto
    from c1 c2 c3 show ?thesis by simp
  qed
qed

lemma si_get_aggregated: "aggregated k (snd (si_get r ''sample'')) = aggregated k r"
  by (simp add: si_get_def aggregated_def split: option.splits)

lemma si_get_keys:
  "{a \<in> fst ` set (snd (si_get r ''sample'')). a \<noteq> ''sample'' \<and> a \<noteq> ''detokenized''}
     = {a \<in> fst ` set r. a \<noteq> ''sample'' \<and> a \<noteq> ''detokenized''}"
  by (auto simp: si_get_def split: option.splits)

lemma aggregate_preds:
  "aggregate rs samples p = Inr (p', samples') \<Longrightarrow>
     samples' = samples @ map (\<lambda>r. fst (si_get r ''sample'')) rs
     \<and> preds_at p' k = preds_at p k @ concat (map (\<lambda>r. map minimum (aggregated k r)) rs)
     \<and> fst ` set p' = fst ` set p
          \<union> (\<Union>r \<in> set rs. {a \<in> fst ` set r. a \<noteq> ''sample'' \<and> a \<noteq> ''detokenized''})
     \<and> (\<forall>r \<in> set rs. \<forall>v \<in> set (aggregated k r). \<exists>x xs. v = PList (map PFloat (x # xs)))"
proof (induction rs arbitrary: samples p)
  case Nil
  then show ?case by simp
next
  case (Cons r rs)
  from Cons.prems obtain p1 where
    items: "aggregate_items (snd (si_get r ''sample'')) p = Inr p1"
    and rest: "aggregate rs (samples @ [fst (si_get r ''sample'')]) p1 = Inr (p', samples')"
    by (auto simp: case_prod_beta split: sum.splits)
  note a = aggregate_items_preds[OF items, of k, unfolded si_get_aggregated si_get_keys]
  note b = Cons.IH[OF rest]
  from a b show ?case by (simp add: Un_assoc)
qed

lemma own_event_not_call: "list_all own_event ev \<Longrightarrow> filter is_call ev = []"
  by (induction ev) (auto simp: own_event_def is_call_def split: event.splits)

lemma load_events: "list_all own_event (snd (load a))"
  by (simp add: load_def own_event_def list_all_iff split: option.splits)

lemma unload_events: "list_all own_event (snd (unload a))"
  by (simp add: unload_def own_event_def list_all_iff split: option.splits)

lemma attack_impl_events: "list_all own_event (snd (attack_impl a d p t kw))"
  by (simp add: attack_impl_def Attack_attack_impl_def PerturbationAttack_attack_impl_def Let_def
        own_event_def list_all_iff split: attack_class.splits option.splits)

lemma attack_events: "list_all own_event (snd (snd (attack a d p kw)))"
  using load_events[of a] attack_impl_events
  by (simp add: attack_def Let_def case_prod_beta split: option.splits bool.splits)

lemma call_attack_events:
  assumes "call_attack k d p kw st = Inr (x, st')"
  shows "\<exists>ev. events st' = events st @ AttackCall k d p (loss kw) # ev \<and> list_all own_event ev
              \<and> map fst (attackers_dict st') = map fst (attackers_dict st)"
proof -
  from assms obtain a where a: "map_of (attackers_dict st) k = Some a"
    and st': "st' = \<lparr>attackers_dict = dict_set (attackers_dict st) k (fst (snd (attack a d p kw))),
                      events = events st @ [AttackCall k d p (loss kw)] @ snd (snd (attack a d p kw))\<rparr>"
    by (auto simp: call_attack_def case_prod_beta Let_def split: option.splits sum.splits)
  have "events st' = events st @ AttackCall k d p (loss kw) # snd (snd (attack a d p kw))
        \<and> list_all own_event (snd (snd (attack a d p kw)))
        \<and> map fst (attackers_dict st') = map fst (attackers_dict st)"
    using attack_events[of a d p kw] keys_dict_set_present[OF a] by (simp add: st')
  then show ?thesis by (rule exI)
qed

lemma own_event_no_probabilities: "list_all own_event ev \<Longrightarrow> list_all no_probabilities ev"
  by (induction ev) (auto simp: own_event_def no_probabilities_def split: event.splits)

lemma extends_refl: "extends st st []"
  by (simp add: extends_def)

lemma extends_trans: "extends st st1 cs1 \<Longrightarrow> extends st1 st2 cs2 \<Longrightarrow> extends st st2 (cs1 @ cs2)"
  by (auto simp: extends_def)

lemma call_attack_extends:
  assumes "call_attack k d p kw st = Inr (x, st')"
  shows "extends st st' [AttackCall k d p (loss kw)]"
proof -
  from call_attack_events[OF assms] obtain ev where
    ev: "events st' = events st @ AttackCall k d p (loss kw) # ev" "list_all own_event ev"
        "map fst (attackers_dict st') = map fst (attackers_dict st)" by (elim exE conjE)
  have "events st' = events st @ (AttackCall k d p (loss kw) # ev)
        \<and> filter is_call (AttackCall k d p (loss kw) # ev) = [AttackCall k d p (loss kw)]
        \<and> list_all no_probabilities (AttackCall k d p (loss kw) # ev)
        \<and> map fst (attackers_dict st') = map fst (attackers_dict st)"
    using ev own_event_not_call[OF ev(2)] own_event_no_probabilities[OF ev(2)]
    by (simp add: is_call_def no_probabilities_def)
  then show ?thesis unfolding extends_def by (rule exI)
qed

lemma call_unload_extends:
  assumes "map_of (attackers_dict st) k = Some a"
  shows "extends st (call_unload k st) [AttackUnload k]"
proof -
  have "events (call_unload k st) = events st @ (AttackUnload k # snd (unload a))
        \<and> filter is_call (AttackUnload k # snd (unload a)) = [AttackUnload k]
        \<and> list_all no_probabilities (AttackUnload k # snd (unload a))
        \<and> map fst (attackers_dict (call_unload k st)) = map fst (attackers_dict st)"
    using assms own_event_not_call[OF unload_events[of a]] own_event_no_probabilities[OF unload_events[of a]]
      keys_dict_set_present[OF assms]
    by (simp add: call_unload_def case_prod_beta is_call_def no_probabilities_def)
  then show ?thesis unfolding extends_def by (rule exI)
qed

lemma ref_substr_loop_extends:
  "ref_substr_loop cfg k r items acc st = Inr (scores, st') \<Longrightarrow>
     extends st st' (map (ref_call cfg k r) items)"
proof (induction items arbitrary: acc st)
  case Nil
  then show ?case by (simp add: extends_refl)
next
  case (Cons item items)
  obtain i s where item: "item = (i, s)" by (cases item)
  from Cons.prems item obtain s' lv l score st1 where
    s': "(if pretokenized cfg then py_getitem (fst (si_get r ''detokenized'')) i else Inr s) = Inr s'"
    and lv: "py_getitem (fst (si_get r LOSS)) i = Inr lv" and l: "as_float lv = Some l"
    and call: "call_attack k s' None \<lparr>detokenized_sample = None, loss = Some l, batch_size_kw = None,
                 substr_neighbors = None\<rparr> st = Inr (score, st1)"
    and rest: "ref_substr_loop cfg k r items (acc @ [PFloat score]) st1 = Inr (scores, st')"
    by (auto split: sum.splits option.splits prod.splits)
  have "ref_call cfg k r item = AttackCall k s' None (Some l)"
    using s' lv l by (auto simp: ref_call_def item split: if_splits)
  with call_attack_extends[OF call] have "extends st st1 [ref_call cfg k r item]" by simp
  from extends_trans[OF this Cons.IH[OF rest]] show ?case by simp
qed

lemma fst_si_get: "fst (si_get r k) = (case map_of r k of None \<Rightarrow> PList [] | Some v \<Rightarrow> v)"
  by (simp add: si_get_def split: option.splits)

lemma snd_si_get: "snd (si_get r k) = (if map_of r k = None then dict_set r k (PList []) else r)"
  by (auto simp: si_get_def dict_set_fresh split: option.splits)

lemma si_get_si_get: "fst (si_get (snd (si_get r k)) k') = fst (si_get r k')"
  by (simp add: fst_si_get snd_si_get map_of_dict_set split: option.splits)

lemma ref_call_si_get: "ref_call cfg k (snd (si_get r k')) = ref_call cfg k r"
  by (rule ext) (simp add: ref_call_def si_get_si_get)

lemma si_extend_eq:
  "si_extend si k ys = Inr si' \<Longrightarrow> si' = dict_set si k (PList (scores_at si k @ ys))"
  by (auto simp: si_extend_def scores_at_def dict_set_fresh split: option.splits pyval.splits)

lemma si_extend_other:
  "si_extend si k ys = Inr si' \<Longrightarrow> k' \<noteq> k \<Longrightarrow> map_of si' k' = map_of si k'"
  by (drule si_extend_eq) (simp add: map_of_dict_set)

lemma si_get_cong: "map_of r' k = map_of r k \<Longrightarrow> fst (si_get r' k) = fst (si_get r k)"
  by (simp add: fst_si_get)

lemma ref_record_extends:
  assumes "ref_record cfg k r st = Inr (r', st')"
  shows "extends st st' (ref_calls cfg k r) \<and> agree_except ((=) k) r r'"
proof -
  from assms obtain substrs scores where
    it: "py_iter (fst (si_get r ''sample'')) = Inr substrs"
    and loop: "ref_substr_loop cfg k (snd (si_get r ''sample'')) (zip [0..<length substrs] substrs) [] st
                 = Inr (scores, st')"
    and ext: "si_extend (snd (si_get r ''sample'')) k scores = Inr r'"
    by (auto simp: ref_record_def case_prod_beta split: sum.splits)
  have a: "extends st st' (ref_calls cfg k r)"
    using ref_substr_loop_extends[OF loop] by (simp add: ref_calls_def it ref_call_si_get)
  have b: "agree_except ((=) k) r r'"
    unfolding agree_except_def
  proof (intro allI impI)
    fix k' assume "\<not> k = k'"
    then have "map_of r' k' = map_of (snd (si_get r ''sample'')) k'"
      using si_extend_other[OF ext, of k'] by simp
    then have "fst (si_get r' k') = fst (si_get (snd (si_get r ''sample'')) k')" by (rule si_get_cong)
    then show "fst (si_get r' k') = fst (si_get r k')" by (simp add: si_get_si_get)
  qed
  from a b show ?thesis ..
qed

lemma extends_keys: "extends st st' cs \<Longrightarrow> map fst (attackers_dict st') = map fst (attackers_dict st)"
  by (auto simp: extends_def)

lemma agree_except_refl: "agree_except P r r"
  by (simp add: agree_except_def)

lemma agree_except_trans: "agree_except P r r' \<Longrightarrow> agree_except P r' r'' \<Longrightarrow> agree_except P r r''"
  by (simp add: agree_except_def)

lemma agree_except_mono: "agree_except ((=) k) r r' \<Longrightarrow> P k \<Longrightarrow> agree_except P r r'"
  by (auto simp: agree_except_def)

lemma ref_calls_cong:
  assumes "agree_except P r r'" "\<not> P ''sample''" "\<not> P ''detokenized''" "\<not> P LOSS"
  shows "ref_calls cfg k r' = ref_calls cfg k r"
proof -
  from assms have a: "fst (si_get r' ''sample'') = fst (si_get r ''sample'')"
    and b: "fst (si_get r' ''detokenized'') = fst (si_get r ''detokenized'')"
    and c: "fst (si_get r' LOSS) = fst (si_get r LOSS)"
    by (simp_all add: agree_except_def)
  have "ref_call cfg k r' = ref_call cfg k r"
    by (rule ext) (simp add: ref_call_def b c)
  then show ?thesis unfolding ref_calls_def a by (simp only:)
qed

lemma ref_results_loop_extends:
  "ref_results_loop cfg k rs acc st = Inr (results', st') \<Longrightarrow>
     \<exists>rs'. results' = acc @ rs' \<and> list_all2 (agree_except ((=) k)) rs rs'
          \<and> extends st st' (concat (map (ref_calls cfg k) rs))"
proof (induction rs arbitrary: acc st)
  case Nil
  then show ?case by (simp add: extends_refl)
next
  case (Cons r rs)
  from Cons.prems obtain r' st1 where
    one: "ref_record cfg k r st = Inr (r', st1)"
    and rest: "ref_results_loop cfg k rs (acc @ [r']) st1 = Inr (results', st')"
    by (auto split: sum.splits)
  from ref_record_extends[OF one] have e1: "extends st st1 (ref_calls cfg k r)"
    and a1: "agree_except ((=) k) r r'" by simp_all
  from Cons.IH[OF rest] obtain rs' where rs': "results' = (acc @ [r']) @ rs'"
    "list_all2 (agree_except ((=) k)) rs rs'" "extends st1 st' (concat (map (ref_calls cfg k) rs))"
    by (elim exE conjE)
  have "results' = acc @ (r' # rs') \<and> list_all2 (agree_except ((=) k)) (r # rs) (r' # rs')
        \<and> extends st st' (concat (map (ref_calls cfg k) (r # rs)))"
    using rs' a1 extends_trans[OF e1 rs'(3)] by simp
  then show ?case by (rule exI)
qed

lemma ref_key_prefix: "prefix ''ref-'' (ref_key_of name)"
  by (simp add: ref_key_of_def REFERENCE_BASED_def)

lemma list_all2_agree_calls:
  "list_all2 (agree_except (prefix ''ref-'')) rs rs' \<Longrightarrow>
     map (ref_calls cfg k) rs' = map (ref_calls cfg k) rs"
proof (induction rule: list_all2_induct)
  case Nil
  then show ?case by simp
next
  case (Cons r rs r' rs')
  have "ref_calls cfg k r' = ref_calls cfg k r"
    by (rule ref_calls_cong[OF Cons.hyps(1)]) (simp_all add: LOSS_def)
  with Cons.IH show ?case by simp
qed

lemma ref_script_cong:
  "list_all2 (agree_except (prefix ''ref-'')) rs rs' \<Longrightarrow>
     ref_script cfg keys names rs' = ref_script cfg keys names rs"
  unfolding ref_script_def by (simp only: list_all2_agree_calls)

lemma ref_models_loop_extends:
  "ref_models_loop cfg names results st = Inr (results', st') \<Longrightarrow>
     list_all2 (agree_except (prefix ''ref-'')) results results'
     \<and> extends st st' (ref_script cfg (map fst (attackers_dict st)) names results)"
proof (induction names arbitrary: results st)
  case Nil
  then show ?case
    by (simp add: ref_script_def extends_refl list_all2_same agree_except_refl)
next
  case (Cons name names)
  let ?k = "ref_key_of name"
  show ?case
  proof (cases "map_of (attackers_dict st) ?k")
    case None
    then have nk: "?k \<notin> set (map fst (attackers_dict st))" by (simp add: map_of_eq_None_iff)
    from Cons.prems None have "ref_models_loop cfg names results st = Inr (results', st')" by simp
    from Cons.IH[OF this] nk show ?thesis by (simp add: ref_script_def)
  next
    case (Some a)
    then have ink: "?k \<in> set (map fst (attackers_dict st))"
      by (metis map_of_eq_None_iff option.distinct(1) set_map)
    from Cons.prems Some obtain results1 st1 where
      loop: "ref_results_loop cfg ?k results [] st = Inr (results1, st1)"
      and rest: "ref_models_loop cfg names results1 (call_unload ?k st1) = Inr (results', st')"
      by (auto split: sum.splits)
    from ref_results_loop_extends[OF loop] have
      ag1: "list_all2 (agree_except ((=) ?k)) results results1"
      and e1: "extends st st1 (concat (map (ref_calls cfg ?k) results))" by auto
    have ag1': "list_all2 (agree_except (prefix ''ref-'')) results results1"
      by (rule list_all2_mono[OF ag1]) (rule agree_except_mono, assumption, rule ref_key_prefix)
    from ink extends_keys[OF e1] have "?k \<in> set (map fst (attackers_dict st1))" by simp
    then obtain a1 where a1: "map_of (attackers_dict st1) ?k = Some a1"
      by (metis map_of_eq_None_iff not_Some_eq set_map)
    note e2 = call_unload_extends[OF a1]
    from Cons.IH[OF rest] have
      ag2: "list_all2 (agree_except (prefix ''ref-'')) results1 results'"
      and e3: "extends (call_unload ?k st1) st'
                 (ref_script cfg (map fst (attackers_dict (call_unload ?k st1))) names results1)"
      by simp_all
    have keys: "map fst (attackers_dict (call_unload ?k st1)) = map fst (attackers_dict st)"
      using extends_keys[OF e2] extends_keys[OF e1] by simp
    have ag: "list_all2 (agree_except (prefix ''ref-'')) results results'"
      by (rule list_all2_trans[OF _ ag1' ag2]) (rule agree_except_trans)
    have "extends st st' ((concat (map (ref_calls cfg ?k) results) @ [AttackUnload ?k])
             @ ref_script cfg (map fst (attackers_dict st)) names results)"
      using extends_trans[OF extends_trans[OF e1 e2] e3]
      by (simp add: keys ref_script_cong[OF ag1'])
    with ink have "extends st st' (ref_script cfg (map fst (attackers_dict st)) (name # names) results)"
      by (simp add: ref_script_def)
    with ag show ?thesis ..
  qed
qed

lemma grows_refl: "grows st st"
  by (simp add: grows_def)

lemma grows_trans: "grows st st1 \<Longrightarrow> grows st1 st2 \<Longrightarrow> grows st st2"
  by (auto simp: grows_def)

lemma grows_events:
  "events st' = events st @ ev \<Longrightarrow> list_all primary_event ev \<Longrightarrow>
   map fst (attackers_dict st') = map fst (attackers_dict st) \<Longrightarrow> grows st st'"
  by (auto simp: grows_def)

lemma own_event_primary: "list_all own_event ev \<Longrightarrow> list_all primary_event ev"
  by (induction ev) (auto simp: own_event_def primary_event_def split: event.splits)

lemma call_attack_grows:
  assumes "call_attack k d p kw st = Inr (x, st')" "\<not> prefix REFERENCE_BASED k"
  shows "grows st st'"
proof -
  from call_attack_events[OF assms(1)] obtain ev where
    ev: "events st' = events st @ AttackCall k d p (loss kw) # ev" "list_all own_event ev"
        "map fst (attackers_dict st') = map fst (attackers_dict st)"
    by (elim exE conjE)
  show ?thesis
    by (rule grows_events[OF ev(1) _ ev(3)])
       (simp add: primary_event_def assms(2) own_event_primary[OF ev(2)])
qed

lemma distinct_dict_set: "distinct (map fst d) \<Longrightarrow> distinct (map fst (dict_set d k v))"
proof (cases "map_of d k")
  case None
  then have "k \<notin> fst ` set d" by (simp add: map_of_eq_None_iff)
  moreover assume "distinct (map fst d)"
  ultimately show ?thesis using None by (simp add: dict_set_fresh)
next
  case (Some w)
  assume "distinct (map fst d)"
  then show ?thesis by (simp add: keys_dict_set_present[OF Some])
qed

lemma si_append_distinct:
  "si_append si k x = Inr si' \<Longrightarrow> distinct (map fst si) \<Longrightarrow> distinct (map fst si')"
  by (drule si_append_eq) (simp add: distinct_dict_set)

lemma neighbor_loop_grows_events:
  "neighbor_loop c nc ns si st = Inr (si', st') \<Longrightarrow>
     grows st st' \<and> (distinct (map fst si) \<longrightarrow> distinct (map fst si'))"
proof (induction ns arbitrary: si st)
  case Nil
  then show ?case by (simp add: grows_refl)
next
  case (Cons n ns)
  show ?case
  proof (cases "\<exists>nb. c_neighbors c = Some nb \<and> nb \<noteq> [] \<and> \<not> dump_cache nc")
    case False
    with Cons.prems have "neighbor_loop c nc ns si st = Inr (si', st')"
      by (auto split: option.splits)
    from Cons.IH[OF this] show ?thesis .
  next
    case True
    with Cons.prems obtain sn score si1 st1 where
      call: "call_attack NEIGHBOR (c_substr c) (Some (c_probs c))
               ((attack_kwargs c)\<lparr>batch_size_kw := Some 4, substr_neighbors := Some sn\<rparr>) st = Inr (score, st1)"
      and app: "si_append si (NEIGHBOR @ ''-'' @ str_int n) (PFloat score) = Inr si1"
      and rest: "neighbor_loop c nc ns si1 st1 = Inr (si', st')"
      by (auto split: option.splits sum.splits prod.splits)
    have "grows st st1" by (rule call_attack_grows[OF call]) (simp add: NEIGHBOR_def REFERENCE_BASED_def)
    with Cons.IH[OF rest] si_append_distinct[OF app] show ?thesis
      by (auto intro: grows_trans)
  qed
qed

lemma attack_loop_grows:
  "attack_loop c as si st = Inr (si', st') \<Longrightarrow>
     grows st st' \<and> (distinct (map fst si) \<longrightarrow> distinct (map fst si'))"
proof (induction as arbitrary: si st)
  case Nil
  then show ?case by (simp add: grows_refl)
next
  case (Cons a as)
  consider (skip) "prefix REFERENCE_BASED a \<or> a = LOSS"
    | (plain) "\<not> (prefix REFERENCE_BASED a \<or> a = LOSS)" "a \<noteq> NEIGHBOR"
    | (ne) "\<not> (prefix REFERENCE_BASED a \<or> a = LOSS)" "a = NEIGHBOR" by blast
  then show ?case
  proof cases
    case skip
    with Cons.prems have "attack_loop c as si st = Inr (si', st')" by auto
    from Cons.IH[OF this] show ?thesis .
  next
    case plain
    with Cons.prems obtain score st1 si1 where
      call: "call_attack a (c_substr c) (Some (c_probs c)) (attack_kwargs c) st = Inr (score, st1)"
      and app: "si_append si a (PFloat score) = Inr si1"
      and rest: "attack_loop c as si1 st1 = Inr (si', st')"
      by (auto split: sum.splits prod.splits if_splits)
    have "grows st st1" by (rule call_attack_grows[OF call]) (use plain in simp)
    with Cons.IH[OF rest] si_append_distinct[OF app] show ?thesis
      by (auto intro: grows_trans)
  next
    case ne
    with Cons.prems obtain nc si1 st1 where
      nl: "neighbor_loop c nc (n_perturbation_list nc) si st = Inr (si1, st1)"
      and rest: "attack_loop c as si1 st1 = Inr (si', st')"
      by (auto split: sum.splits prod.splits option.splits)
    from neighbor_loop_grows_events[OF nl] Cons.IH[OF rest] show ?thesis
      by (auto intro: grows_trans)
  qed
qed

lemma score_substr_grows:
  assumes "score_substr cfg tm nb di detok item si st = Inr (si', st')"
  shows "grows st st' \<and> (distinct (map fst si) \<longrightarrow> distinct (map fst si'))"
proof -
  from assms obtain si1 where
    app: "si_append si LOSS (PFloat (loss_item cfg tm detok item)) = Inr si1"
    and loop: "attack_loop (substr_ctx_of cfg tm nb di detok item) (map fst (attackers_dict st)) si1
                 (st\<lparr>events := events st @ substr_events cfg tm detok item\<rparr>) = Inr (si', st')"
    unfolding score_substr_eq by (auto split: if_splits sum.splits)
  have "grows st (st\<lparr>events := events st @ substr_events cfg tm detok item\<rparr>)"
    by (rule grows_events[of _ _ "substr_events cfg tm detok item"])
       (simp_all add: substr_events_def primary_event_def Let_def)
  with attack_loop_grows[OF loop] si_append_distinct[OF app] show ?thesis
    by (auto intro: grows_trans)
qed

lemma substr_loop_grows:
  "substr_loop cfg tm nb di detok items si st = Inr (si', st') \<Longrightarrow>
     grows st st' \<and> (distinct (map fst si) \<longrightarrow> distinct (map fst si'))"
proof (induction items arbitrary: si st)
  case Nil
  then show ?case by (simp add: grows_refl)
next
  case (Cons item items)
  from Cons.prems obtain si1 st1 where
    one: "score_substr cfg tm nb di detok item si st = Inr (si1, st1)"
    and rest: "substr_loop cfg tm nb di detok items si1 st1 = Inr (si', st')"
    by (auto split: sum.splits prod.splits)
  from score_substr_grows[OF one] Cons.IH[OF rest] show ?case
    by (auto intro: grows_trans)
qed

lemma process_document_grows:
  assumes "process_document cfg tm nb di text st = Inr (si, st')"
  shows "grows st st' \<and> distinct (map fst si) \<and> sample_of cfg text = Inr (fst (si_get si ''sample''))"
proof -
  from assms obtain sample substrs where
    s: "sample_of cfg text = Inr sample" and it: "py_iter sample = Inr substrs"
    by (auto simp: process_document_def split: sum.splits)
  define si1 where "si1 = (if pretokenized cfg
                     then dict_set (dict_set [] ''sample'' sample) ''detokenized''
                            (PList (if pretokenized cfg then map (decode tm) substrs else []))
                     else dict_set [] ''sample'' sample)"
  define st1 where "st1 = (if pretokenized cfg
                           then st\<lparr>events := events st @ map (Decode (model_name tm)) substrs\<rparr>
                           else st)"
  from assms s it have
    loop: "substr_loop cfg tm nb di (if pretokenized cfg then map (decode tm) substrs else [])
                 (zip [0..<length substrs] substrs) si1 st1 = Inr (si, st')"
    by (cases "pretokenized cfg") (simp_all add: process_document_def Let_def si1_def st1_def)
  have d1: "distinct (map fst si1)" by (simp add: si1_def)
  have g1: "grows st st1"
  proof (cases "pretokenized cfg")
    case True
    show ?thesis
      by (rule grows_events[of _ _ "map (Decode (model_name tm)) substrs"])
         (simp_all add: st1_def True list_all_iff primary_event_def)
  next
    case False
    then show ?thesis by (simp add: st1_def grows_refl)
  qed
  from process_document_keys[OF assms] s have "map_of si ''sample'' = Some sample"
    by (auto simp: sample_of_def)
  then have "fst (si_get si ''sample'') = sample" by (simp add: fst_si_get)
  with substr_loop_grows[OF loop] d1 g1 s show ?thesis by (auto intro: grows_trans)
qed

lemma document_loop_grows:
  "document_loop cfg tm nb offset texts results st = Inr (results', st') \<Longrightarrow>
     grows st st'
     \<and> (\<exists>rs. results' = results @ rs \<and> list_all (\<lambda>r. distinct (map fst r)) rs
            \<and> map (\<lambda>r. Inr (fst (si_get r ''sample''))) rs = map (\<lambda>t. sample_of cfg (snd t)) texts)"
proof (induction texts arbitrary: results st)
  case Nil
  then show ?case by (simp add: grows_refl)
next
  case (Cons t texts)
  obtain idx tx where t: "t = (idx, tx)" by (cases t)
  from Cons.prems t obtain si st1 where
    one: "process_document cfg tm nb (offset + idx) tx st = Inr (si, st1)"
    and rest: "document_loop cfg tm nb offset texts (results @ [si]) st1 = Inr (results', st')"
    by (auto split: sum.splits)
  from process_document_grows[OF one] have g1: "grows st st1" and d: "distinct (map fst si)"
    and s: "sample_of cfg tx = Inr (fst (si_get si ''sample''))" by simp_all
  from Cons.IH[OF rest] obtain rs where g2: "grows st1 st'" and rs: "results' = (results @ [si]) @ rs"
    "list_all (\<lambda>r. distinct (map fst r)) rs"
    "map (\<lambda>r. Inr (fst (si_get r ''sample''))) rs = map (\<lambda>t. sample_of cfg (snd t)) texts"
    by (elim exE conjE)
  have "results' = results @ (si # rs) \<and> list_all (\<lambda>r. distinct (map fst r)) (si # rs)
        \<and> map (\<lambda>r. Inr (fst (si_get r ''sample''))) (si # rs) = map (\<lambda>t. sample_of cfg (snd t)) (t # texts)"
    using rs d s t by simp
  then have "\<exists>rs. results' = results @ rs \<and> list_all (\<lambda>r. distinct (map fst r)) rs
        \<and> map (\<lambda>r. Inr (fst (si_get r ''sample''))) rs = map (\<lambda>t. sample_of cfg (snd t)) (t # texts)"
    by (rule exI)
  with grows_trans[OF g1 g2] show ?case ..
qed

lemma batch_loop_grows:
  "batch_loop cfg tm nb recs bs batches results st = Inr (results', st') \<Longrightarrow>
     grows st st'
     \<and> (\<exists>rs. results' = results @ rs \<and> list_all (\<lambda>r. distinct (map fst r)) rs
            \<and> map (\<lambda>r. Inr (fst (si_get r ''sample''))) rs
                = map (sample_of cfg) (concat (map (\<lambda>b. take bs (drop (b * bs) recs)) batches)))"
proof (induction batches arbitrary: results st)
  case Nil
  then show ?case by (simp add: grows_refl)
next
  case (Cons b batches)
  let ?texts = "take bs (drop (b * bs) recs)"
  from Cons.prems obtain results1 st1 where
    one: "document_loop cfg tm nb (b * bs) (zip [0..<length ?texts] ?texts) results st = Inr (results1, st1)"
    and rest: "batch_loop cfg tm nb recs bs batches results1 st1 = Inr (results', st')"
    by (auto simp: Let_def split: sum.splits)
  from document_loop_grows[OF one] obtain rs1 where g1: "grows st st1" and rs1: "results1 = results @ rs1"
    "list_all (\<lambda>r. distinct (map fst r)) rs1"
    "map (\<lambda>r. Inr (fst (si_get r ''sample''))) rs1
       = map (\<lambda>t. sample_of cfg (snd t)) (zip [0..<length ?texts] ?texts)"
    by (elim exE conjE)
  have z: "map (\<lambda>t. sample_of cfg (snd t)) (zip [0..<length ?texts] ?texts) = map (sample_of cfg) ?texts"
    by (rule nth_equalityI) simp_all
  from Cons.IH[OF rest] obtain rs2 where g2: "grows st1 st'" and rs2: "results' = results1 @ rs2"
    "list_all (\<lambda>r. distinct (map fst r)) rs2"
    "map (\<lambda>r. Inr (fst (si_get r ''sample''))) rs2
       = map (sample_of cfg) (concat (map (\<lambda>b. take bs (drop (b * bs) recs)) batches))"
    by (elim exE conjE)
  have "results' = results @ (rs1 @ rs2) \<and> list_all (\<lambda>r. distinct (map fst r)) (rs1 @ rs2)
        \<and> map (\<lambda>r. Inr (fst (si_get r ''sample''))) (rs1 @ rs2)
            = map (sample_of cfg) (concat (map (\<lambda>b. take bs (drop (b * bs) recs)) (b # batches)))"
    using rs1 rs2 z by simp
  then have "\<exists>rs. results' = results @ rs \<and> list_all (\<lambda>r. distinct (map fst r)) rs
        \<and> map (\<lambda>r. Inr (fst (si_get r ''sample''))) rs
            = map (sample_of cfg) (concat (map (\<lambda>b. take bs (drop (b * bs) recs)) (b # batches)))"
    by (rule exI)
  with grows_trans[OF g1 g2] show ?case ..
qed

lemma concat_batches:
  "concat (map (\<lambda>b. take bs (drop (b * bs) recs)) [0..<nb]) = take (nb * bs) recs"
proof (induction nb)
  case 0
  then show ?case by simp
next
  case (Suc nb)
  have "take (Suc nb * bs) recs = take (nb * bs) recs @ take bs (drop (nb * bs) recs)"
    using take_add[of "nb * bs" bs recs] by (simp add: add.commute)
  with Suc show ?case by simp
qed

lemma print_grows: "grows st (st\<lparr>events := events st @ [Print s]\<rparr>)"
  by (rule grows_events[of _ _ "[Print s]"]) (simp_all add: primary_event_def)

lemma primary_pass_grows:
  assumes "primary_pass dat tm cfg n bs st = Inr (results, st')"
  shows "grows st st' \<and> list_all (\<lambda>r. distinct (map fst r)) results
         \<and> map (\<lambda>r. Inr (fst (si_get r ''sample''))) results
             = map (sample_of cfg) (processed_records dat n bs)"
proof -
  define nn where "nn = (case n of None \<Rightarrow> length (records dat) | Some n \<Rightarrow> n)"
  from assms obtain nbs st1 where
    g1: "grows st st1"
    and loop: "batch_loop cfg tm nbs (records dat) bs [0..<(nn + bs - 1) div bs] [] st1 = Inr (results, st')"
    unfolding primary_pass_def Let_def nn_def
    by (auto split: sum.splits if_splits option.splits prod.splits
             intro: grows_refl print_grows)
  from batch_loop_grows[OF loop] g1 show ?thesis
    by (auto simp: concat_batches processed_records_def nn_def intro: grows_trans)
qed

lemma snd_si_get_distinct: "distinct (map fst r) \<Longrightarrow> distinct (map fst (snd (si_get r k)))"
  by (simp add: snd_si_get distinct_dict_set)

lemma si_extend_distinct:
  "si_extend si k ys = Inr si' \<Longrightarrow> distinct (map fst si) \<Longrightarrow> distinct (map fst si')"
  by (drule si_extend_eq) (simp add: distinct_dict_set)

lemma ref_record_distinct:
  assumes "ref_record cfg k r st = Inr (r', st')" "distinct (map fst r)"
  shows "distinct (map fst r')"
proof -
  from assms(1) obtain scores where
    ext: "si_extend (snd (si_get r ''sample'')) k scores = Inr r'"
    by (auto simp: ref_record_def case_prod_beta split: sum.splits)
  from si_extend_distinct[OF ext snd_si_get_distinct[OF assms(2)]] show ?thesis .
qed

lemma ref_results_loop_distinct:
  "ref_results_loop cfg k rs acc st = Inr (results', st') \<Longrightarrow>
   list_all (\<lambda>r. distinct (map fst r)) rs \<Longrightarrow> list_all (\<lambda>r. distinct (map fst r)) acc \<Longrightarrow>
     list_all (\<lambda>r. distinct (map fst r)) results'"
proof (induction rs arbitrary: acc st)
  case Nil
  then show ?case by simp
next
  case (Cons r rs)
  from Cons.prems(1) obtain r' st1 where
    one: "ref_record cfg k r st = Inr (r', st1)"
    and rest: "ref_results_loop cfg k rs (acc @ [r']) st1 = Inr (results', st')"
    by (auto split: sum.splits)
  from ref_record_distinct[OF one] Cons.prems(2) have "distinct (map fst r')" by simp
  with Cons.prems have "list_all (\<lambda>r. distinct (map fst r)) (acc @ [r'])"
    and "list_all (\<lambda>r. distinct (map fst r)) rs" by simp_all
  from Cons.IH[OF rest this(2) this(1)] show ?case .
qed

lemma ref_models_loop_distinct:
  "ref_models_loop cfg names results st = Inr (results', st') \<Longrightarrow>
   list_all (\<lambda>r. distinct (map fst r)) results \<Longrightarrow> list_all (\<lambda>r. distinct (map fst r)) results'"
proof (induction names arbitrary: results st)
  case Nil
  then show ?case by simp
next
  case (Cons name names)
  show ?case
  proof (cases "map_of (attackers_dict st) (ref_key_of name)")
    case None
    with Cons.prems(1) have "ref_models_loop cfg names results st = Inr (results', st')" by simp
    from Cons.IH[OF this Cons.prems(2)] show ?thesis .
  next
    case (Some a)
    with Cons.prems(1) obtain results1 st1 where
      loop: "ref_results_loop cfg (ref_key_of name) results [] st = Inr (results1, st1)"
      and rest: "ref_models_loop cfg names results1 (call_unload (ref_key_of name) st1) = Inr (results', st')"
      by (auto split: sum.splits)
    from ref_results_loop_distinct[OF loop Cons.prems(2)]
    have "list_all (\<lambda>r. distinct (map fst r)) results1" by simp
    from Cons.IH[OF rest this] show ?thesis .
  qed
qed

lemma reference_pass_extends:
  assumes "reference_pass cfg rms results st = Inr (results', st')"
  shows "list_all2 (agree_except (prefix ''ref-'')) results results'
         \<and> (list_all (\<lambda>r. distinct (map fst r)) results \<longrightarrow> list_all (\<lambda>r. distinct (map fst r)) results')
         \<and> extends st st' (case rms of None \<Rightarrow> []
                 | Some ms \<Rightarrow> ref_script cfg (map fst (attackers_dict st)) (map fst ms) results)"
proof (cases rms)
  case None
  with assms have r: "results' = results" and st': "st' = st\<lparr>events := events st @ [Print skip_message]\<rparr>"
    by (simp_all add: reference_pass_def skip_message_def)
  have "extends st st' []"
    unfolding extends_def st'
    by (rule exI[of _ "[Print skip_message]"]) (simp add: is_call_def no_probabilities_def)
  with r None show ?thesis by (simp add: list_all2_same agree_except_refl)
next
  case (Some ms)
  with assms have loop: "ref_models_loop cfg (map fst ms) results st = Inr (results', st')"
    by (simp add: reference_pass_def)
  from ref_models_loop_extends[OF loop] ref_models_loop_distinct[OF loop] Some show ?thesis by simp
qed

lemma agree_samples:
  "list_all2 (agree_except (prefix ''ref-'')) rs rs' \<Longrightarrow>
     map (\<lambda>r. fst (si_get r ''sample'')) rs' = map (\<lambda>r. fst (si_get r ''sample'')) rs"
proof (induction rule: list_all2_induct)
  case Nil
  then show ?case by simp
next
  case (Cons r rs r' rs')
  from Cons.hyps(1) have "fst (si_get r' ''sample'') = fst (si_get r ''sample'')"
    by (simp add: agree_except_def)
  with Cons.IH show ?case by simp
qed

lemma raised_Inr: "raised r = Inr x \<longleftrightarrow> r = Inr x"
  by (simp add: raised_def split: sum.splits)

lemma scored_records_split:
  assumes "scored_records dat att tm rms cfg n bs = Inr (results, st)"
  shows "\<exists>results0 st0. primary_pass dat tm cfg n bs \<lparr>attackers_dict = att, events = []\<rparr> = Inr (results0, st0)
           \<and> reference_pass cfg rms results0 st0 = Inr (results, st)"
  using assms by (auto simp: scored_records_def raised_Inr split: sum.splits)

lemma distinct_aggregated:
  assumes "distinct (map fst r)" "k \<noteq> ''sample''" "k \<noteq> ''detokenized''"
  shows "aggregated k r = (case map_of r k of None \<Rightarrow> [] | Some v \<Rightarrow> [v])"
  using assms(1)
proof (induction r)
  case Nil
  then show ?case by (simp add: aggregated_def)
next
  case (Cons item r)
  obtain a v where item: "item = (a, v)" by (cases item)
  show ?case
  proof (cases "a = k")
    case True
    with Cons.prems item have "k \<notin> fst ` set r" by auto
    then have "filter (\<lambda>(a, v). a = k \<and> a \<noteq> ''sample'' \<and> a \<noteq> ''detokenized'') r = []"
      by (force simp: filter_empty_conv)
    with True item assms(2,3) show ?thesis by (simp add: aggregated_def)
  next
    case False
    with Cons item show ?thesis by (simp add: aggregated_def)
  qed
qed

lemma minimum_floats: "minimum (PList (map PFloat xs)) = Min (set xs)"
  by (simp add: minimum_def score_list_def)

lemma get_mia_scores_split:
  assumes "get_mia_scores dat att tm rms cfg n bs = Inr (out, st)"
  shows "\<exists>results. scored_records dat att tm rms cfg n bs = Inr (results, st)
           \<and> aggregate results [] [] = Inr out"
  using assms by (auto simp: get_mia_scores_def split: sum.splits)

lemma returned_SomeE: "returned r \<noteq> None \<Longrightarrow> \<exists>x st. r = Inr (x, st)"
  by (auto simp: returned_def split: sum.splits)

lemma load_loaded: "(fst (load a))\<lparr>is_loaded := True\<rparr> = a\<lparr>is_loaded := True\<rparr>"
  by (simp add: load_def split: option.splits)

lemma attack_state: "fst (snd (attack a d p kw)) = a\<lparr>is_loaded := True\<rparr>"
  by (cases "is_loaded a")
     (auto simp: attack_def Let_def case_prod_beta load_loaded split: option.splits bool.splits)

lemma loaded_id: "is_loaded a \<Longrightarrow> a\<lparr>is_loaded := True\<rparr> = a"
  by (cases a) simp

lemma attack_loaded: "fst (attack a d p kw) = fst (attack (a\<lparr>is_loaded := True\<rparr>) d p kw)"
proof (cases "is_loaded a")
  case True
  then show ?thesis by (simp add: loaded_id)
next
  case False
  then show ?thesis
    by (auto simp: attack_def Let_def case_prod_beta load_loaded split: option.splits bool.splits)
qed

lemma attack_loaded_eq:
  assumes "a1\<lparr>is_loaded := True\<rparr> = a\<lparr>is_loaded := True\<rparr>"
  shows "fst (attack a1 d p kw) = fst (attack a d p kw)"
  using attack_loaded[of a1 d p kw] attack_loaded[of a d p kw] assms by simp

lemma neighbor_score_loaded:
  "a1\<lparr>is_loaded := True\<rparr> = a\<lparr>is_loaded := True\<rparr> \<Longrightarrow> neighbor_score a1 nb c n = neighbor_score a nb c n"
  unfolding neighbor_score_def by (simp add: attack_loaded_eq[of a1 a] split: sum.splits)

lemma call_attack_eq:
  assumes "map_of (attackers_dict st) k = Some a"
  shows "call_attack k d p kw st =
           (case fst (attack a d p kw) of
              Inl e \<Rightarrow> Inl e
            | Inr x \<Rightarrow>
                Inr (x, \<lparr>attackers_dict = dict_set (attackers_dict st) k (a\<lparr>is_loaded := True\<rparr>),
                         events = events st @ [AttackCall k d p (loss kw)] @ snd (snd (attack a d p kw))\<rparr>))"
  using assms attack_state[of a d p kw]
  by (simp add: call_attack_def case_prod_beta Let_def split: sum.splits)

lemma neighbor_loop_cons:
  assumes "c_neighbors c = Some nb" "nb \<noteq> []" "\<not> dump_cache nc"
    and "map_of (attackers_dict st) NEIGHBOR = Some a"
  shows "neighbor_loop c nc (n # ns) si st =
           (case neighbor_score a nb c n of
              Inl e \<Rightarrow> Inl e
            | Inr x \<Rightarrow>
                (case si_append si (ne_key n) (PFloat x) of
                   Inl e \<Rightarrow> Inl e
                 | Inr si1 \<Rightarrow>
                     neighbor_loop c nc ns si1
                       \<lparr>attackers_dict = dict_set (attackers_dict st) NEIGHBOR (a\<lparr>is_loaded := True\<rparr>),
                        events = events st
                          @ [AttackCall NEIGHBOR (c_substr c) (Some (c_probs c)) (Some (c_loss c))]
                          @ snd (snd (attack a (c_substr c) (Some (c_probs c))
                                   (neighbor_kwargs c (projr (cached_neighbors nb c n)))))\<rparr>))"
proof (cases "cached_neighbors nb c n")
  case (Inl e)
  with assms show ?thesis
    by (auto simp: neighbor_score_def cached_neighbors_def split: option.splits sum.splits)
next
  case (Inr sn)
  then have look: "map_of nb n \<noteq> None"
    "(case map_of nb n of None \<Rightarrow> Inl KeyError
      | Some per_doc \<Rightarrow> (case py_getitem per_doc (c_doc_index c) of Inl e \<Rightarrow> Inl e
           | Inr per_substr \<Rightarrow> py_getitem per_substr (c_i c))) = Inr sn"
    by (auto simp: cached_neighbors_def split: option.splits)
  have kw: "loss (neighbor_kwargs c sn) = Some (c_loss c)"
    by (simp add: neighbor_kwargs_def attack_kwargs_def)
  from look assms(1-3) Inr show ?thesis
    by (auto simp: neighbor_score_def call_attack_eq[OF assms(4)] ne_key_def kw
                   neighbor_kwargs_def[symmetric]
             split: option.splits sum.splits)
qed


lemma loaded_idem: "(a\<lparr>is_loaded := True\<rparr>)\<lparr>is_loaded := True\<rparr> = a\<lparr>is_loaded := True\<rparr>"
  by simp

lemma neighbor_loop_returns:
  assumes "c_neighbors c = Some nb" "nb \<noteq> []" "\<not> dump_cache nc"
  shows "neighbor_loop c nc ns si st = Inr (si', st') \<Longrightarrow>
         map_of (attackers_dict st) NEIGHBOR = Some a1 \<Longrightarrow>
         a1\<lparr>is_loaded := True\<rparr> = a\<lparr>is_loaded := True\<rparr> \<Longrightarrow>
           (\<forall>n\<in>set ns. \<exists>x. neighbor_score a nb c n = Inr x)
         \<and> (\<forall>k. scores_at si' k
                  = scores_at si k
                    @ map (\<lambda>n. PFloat (projr (neighbor_score a nb c n))) (filter (\<lambda>n. ne_key n = k) ns))
         \<and> (\<forall>k. (\<forall>n\<in>set ns. ne_key n \<noteq> k) \<longrightarrow> map_of si' k = map_of si k)
         \<and> extends st st'
             (map (\<lambda>n. AttackCall NEIGHBOR (c_substr c) (Some (c_probs c)) (Some (c_loss c))) ns)"
proof (induction ns arbitrary: si st a1)
  case Nil
  then show ?case by (simp add: extends_refl)
next
  case (Cons n ns)
  let ?call = "AttackCall NEIGHBOR (c_substr c) (Some (c_probs c)) (Some (c_loss c))"
  let ?st1 = "\<lparr>attackers_dict = dict_set (attackers_dict st) NEIGHBOR (a1\<lparr>is_loaded := True\<rparr>),
               events = events st @ [?call]
                 @ snd (snd (attack a1 (c_substr c) (Some (c_probs c))
                          (neighbor_kwargs c (projr (cached_neighbors nb c n)))))\<rparr>"
  have sc: "neighbor_score a1 nb c n = neighbor_score a nb c n"
    by (rule neighbor_score_loaded[OF Cons.prems(3)])
  from Cons.prems(1) obtain x si1 where
    x: "neighbor_score a nb c n = Inr x"
    and app: "si_append si (ne_key n) (PFloat x) = Inr si1"
    and rest: "neighbor_loop c nc ns si1 ?st1 = Inr (si', st')"
    unfolding neighbor_loop_cons[OF assms Cons.prems(2)] sc
    by (auto split: sum.splits)
  have look: "map_of (attackers_dict ?st1) NEIGHBOR = Some (a1\<lparr>is_loaded := True\<rparr>)"
    by (simp add: map_of_dict_set)
  have same: "(a1\<lparr>is_loaded := True\<rparr>)\<lparr>is_loaded := True\<rparr> = a\<lparr>is_loaded := True\<rparr>"
    using Cons.prems(3) by simp
  note ih = Cons.IH[OF rest look same]
  have keys: "map fst (attackers_dict ?st1) = map fst (attackers_dict st)"
    using keys_dict_set_present[OF Cons.prems(2)] by simp
  have own: "list_all own_event (snd (snd (attack a1 (c_substr c) (Some (c_probs c))
                          (neighbor_kwargs c (projr (cached_neighbors nb c n))))))"
    by (rule attack_events)
  have ext1: "extends st ?st1 [?call]"
    unfolding extends_def
    apply (rule exI[of _ "[?call] @ snd (snd (attack a1 (c_substr c) (Some (c_probs c))
                          (neighbor_kwargs c (projr (cached_neighbors nb c n)))))"])
    using own keys own_event_not_call[OF own] own_event_no_probabilities[OF own]
    by (simp add: is_call_def no_probabilities_def)
  have e: "extends st st' ([?call] @ map (\<lambda>n. ?call) ns)"
    by (rule extends_trans[OF ext1]) (rule ih[THEN conjunct2, THEN conjunct2, THEN conjunct2])
  have s1: "\<forall>n\<in>set (n # ns). \<exists>x. neighbor_score a nb c n = Inr x"
    using x ih by simp
  have s2: "scores_at si' k
              = scores_at si k
                @ map (\<lambda>n. PFloat (projr (neighbor_score a nb c n))) (filter (\<lambda>n. ne_key n = k) (n # ns))" for k
  proof (cases "ne_key n = k")
    case True
    with si_append_same[OF app] have "scores_at si1 k = scores_at si k @ [PFloat x]" by simp
    with ih True x show ?thesis by simp
  next
    case False
    then have "map_of si1 k = map_of si k" using si_append_other[OF app, of k] by simp
    then have "scores_at si1 k = scores_at si k" by (rule scores_at_cong)
    with ih False show ?thesis by simp
  qed
  have s3: "(\<forall>n\<in>set (n # ns). ne_key n \<noteq> k) \<longrightarrow> map_of si' k = map_of si k" for k
  proof
    assume a: "\<forall>n\<in>set (n # ns). ne_key n \<noteq> k"
    then have "k \<noteq> ne_key n" by auto
    then have "map_of si1 k = map_of si k" by (rule si_append_other[OF app])
    moreover from a ih have "map_of si' k = map_of si1 k" by simp
    ultimately show "map_of si' k = map_of si k" by simp
  qed
  from s1 s2 s3 e show ?case by simp
qed


lemma si_append_holds:
  assumes "holds_lists si (k # ks)"
  shows "\<exists>si1. si_append si k x = Inr si1 \<and> holds_lists si1 ks"
proof -
  from assms obtain si1 where app: "si_append si k x = Inr si1"
    by (auto simp: holds_lists_def si_append_def split: option.splits pyval.splits)
  have "holds_lists si1 ks"
    unfolding holds_lists_def list_all_iff
  proof
    fix k' assume k': "k' \<in> set ks"
    show "case map_of si1 k' of None \<Rightarrow> True | Some (PList _) \<Rightarrow> True | Some _ \<Rightarrow> False"
    proof (cases "k' = k")
      case True
      then show ?thesis using si_append_eq[OF app] by (simp add: map_of_dict_set)
    next
      case False
      then have "map_of si1 k' = map_of si k'" by (rule si_append_other[OF app])
      with assms k' show ?thesis by (simp add: holds_lists_def list_all_iff)
    qed
  qed
  with app show ?thesis by simp
qed

lemma neighbor_loop_prefix:
  assumes "c_neighbors c = Some nb" "nb \<noteq> []" "\<not> dump_cache nc"
  shows "map_of (attackers_dict st) NEIGHBOR = Some a1 \<Longrightarrow>
         a1\<lparr>is_loaded := True\<rparr> = a\<lparr>is_loaded := True\<rparr> \<Longrightarrow>
         \<forall>n\<in>set ns1. \<exists>x. neighbor_score a nb c n = Inr x \<Longrightarrow>
         holds_lists si (map ne_key ns1) \<Longrightarrow>
           \<exists>si1 st1 a2. neighbor_loop c nc (ns1 @ rest) si st = neighbor_loop c nc rest si1 st1
              \<and> map_of (attackers_dict st1) NEIGHBOR = Some a2
              \<and> a2\<lparr>is_loaded := True\<rparr> = a\<lparr>is_loaded := True\<rparr>"
proof (induction ns1 arbitrary: si st a1)
  case Nil
  then show ?case by auto
next
  case (Cons n ns1)
  let ?st1 = "\<lparr>attackers_dict = dict_set (attackers_dict st) NEIGHBOR (a1\<lparr>is_loaded := True\<rparr>),
               events = events st @ [AttackCall NEIGHBOR (c_substr c) (Some (c_probs c)) (Some (c_loss c))]
                 @ snd (snd (attack a1 (c_substr c) (Some (c_probs c))
                          (neighbor_kwargs c (projr (cached_neighbors nb c n)))))\<rparr>"
  have sc: "neighbor_score a1 nb c n = neighbor_score a nb c n"
    by (rule neighbor_score_loaded[OF Cons.prems(2)])
  from Cons.prems(3) obtain x where x: "neighbor_score a nb c n = Inr x" by auto
  from Cons.prems(4) have "holds_lists si (ne_key n # map ne_key ns1)" by simp
  from si_append_holds[OF this, of "PFloat x"] obtain si1 where
    app: "si_append si (ne_key n) (PFloat x) = Inr si1" and h1: "holds_lists si1 (map ne_key ns1)"
    by (elim exE conjE)
  have step: "neighbor_loop c nc ((n # ns1) @ rest) si st = neighbor_loop c nc (ns1 @ rest) si1 ?st1"
    using neighbor_loop_cons[OF assms Cons.prems(1), of n "ns1 @ rest" si] by (simp add: sc x app)
  have look: "map_of (attackers_dict ?st1) NEIGHBOR = Some (a1\<lparr>is_loaded := True\<rparr>)"
    by (simp add: map_of_dict_set)
  have same: "(a1\<lparr>is_loaded := True\<rparr>)\<lparr>is_loaded := True\<rparr> = a\<lparr>is_loaded := True\<rparr>"
    using Cons.prems(2) by simp
  from Cons.prems(3) have rest_ok: "\<forall>n\<in>set ns1. \<exists>x. neighbor_score a nb c n = Inr x" by simp
  from Cons.IH[OF look same rest_ok h1] show ?case unfolding step .
qed

lemma neighbor_loop_total:
  assumes "c_neighbors c = Some nb" "nb \<noteq> []" "\<not> dump_cache nc"
    and "map_of (attackers_dict st) NEIGHBOR = Some a"
    and "\<forall>n\<in>set ns. \<exists>x. neighbor_score a nb c n = Inr x"
    and "holds_lists si (map ne_key ns)"
  shows "\<exists>si' st'. neighbor_loop c nc ns si st = Inr (si', st')"
  using neighbor_loop_prefix[OF assms(1-4) refl assms(5,6), of "[]"] by auto

lemma neighbor_loop_raises:
  assumes "c_neighbors c = Some nb" "nb \<noteq> []" "\<not> dump_cache nc"
    and "map_of (attackers_dict st) NEIGHBOR = Some a"
    and "\<forall>n\<in>set ns1. \<exists>x. neighbor_score a nb c n = Inr x"
    and "holds_lists si (map ne_key ns1)"
    and "neighbor_score a nb c n = Inl e"
  shows "neighbor_loop c nc (ns1 @ n # ns2) si st = Inl e"
proof -
  from neighbor_loop_prefix[OF assms(1-4) refl assms(5,6), of "n # ns2"] obtain si1 st1 a2 where
    eq: "neighbor_loop c nc (ns1 @ n # ns2) si st = neighbor_loop c nc (n # ns2) si1 st1"
    and look: "map_of (attackers_dict st1) NEIGHBOR = Some a2"
    and same: "a2\<lparr>is_loaded := True\<rparr> = a\<lparr>is_loaded := True\<rparr>"
    by (elim exE conjE)
  have "neighbor_score a2 nb c n = Inl e"
    using neighbor_score_loaded[OF same] assms(7) by simp
  then show ?thesis unfolding eq neighbor_loop_cons[OF assms(1-3) look] by simp
qed

lemma primary_pass_no_cache:
  assumes "NEIGHBOR \<in> fst ` set (attackers_dict st)" "neigh_config cfg = Some nc"
    "load_from_cache nc" "neighbors_cache dat = None"
  shows "primary_pass dat tm cfg n bs st = Inl (Raised KeyError)"
  using assms by (simp add: primary_pass_def)


text \<open>
  Claim C7 says that with the neighbor cache present and dump mode off a score is appended
  under the count-suffixed key for every configured count.  With counts 5 and 10 and a
  cache that holds only count 5 the run raises \<open>KeyError\<close>; with a cache that is present
  but empty nothing is recorded for the neighborhood attack.
\<close>

theorem neighbor_cache_present_no_score:
  "failure (get_mia_scores
       (ex_data\<lparr>neighbors_cache := Some [(5, PList [PList [PStr ''n'', PStr ''n''], PList [PStr ''n'']])]\<rparr>)
       (ex_attackers ex_cfg) (len_model ''target'') None ex_cfg None 50) = Some (Raised KeyError)
   \<and> map_option (\<lambda>out. map fst (fst out))
        (returned (get_mia_scores (ex_data\<lparr>neighbors_cache := Some []\<rparr>)
           (ex_attackers ex_cfg) (len_model ''target'') None ex_cfg None 50)) = Some [''loss'', ''zlib'']"
  by code_simp

text \<open>
  Claim C7, amended.  For the neighborhood attack on one substring, with the strategy stored
  under \<open>ne\<close>.  If no cache was loaded, or the loaded cache is empty, or dump mode is on,
  then nothing is recorded for any configured count, the strategy is not called and no
  error is raised.  If the loaded cache is non-empty and dump mode is off, a run of the
  loop that returns has, for every configured count \<open>n\<close> in order, found
  \<open>neighbors[n][document][substring]\<close> and appended under \<open>ne-n\<close> the score that the
  strategy returns on the substring with those neighbors: one score and one call of the
  strategy per configured count, and every other key is left alone.  The loop does return
  when every such lookup and call succeeds; the first count whose lookup or call fails makes
  the run raise that error (a count that the cache does not hold: \<open>KeyError\<close>).  When the
  cache is to be loaded and the data holds none, the run raises \<open>KeyError\<close> before any
  document is scored.
\<close>

theorem neighbor_loop_scores:
  "((c_neighbors c = None \<or> c_neighbors c = Some [] \<or> dump_cache nc) \<longrightarrow>
       neighbor_loop c nc ns si st = Inr (si, st))
   \<and> (\<forall>nb a si' st'. c_neighbors c = Some nb \<and> nb \<noteq> [] \<and> \<not> dump_cache nc
          \<and> map_of (attackers_dict st) NEIGHBOR = Some a
          \<and> neighbor_loop c nc ns si st = Inr (si', st') \<longrightarrow>
        (\<forall>n\<in>set ns. \<exists>x. neighbor_score a nb c n = Inr x)
        \<and> (\<forall>k. scores_at si' k
                 = scores_at si k
                   @ map (\<lambda>n. PFloat (projr (neighbor_score a nb c n)))
                       (filter (\<lambda>n. ne_key n = k) ns))
        \<and> (\<forall>k. (\<forall>n\<in>set ns. ne_key n \<noteq> k) \<longrightarrow> map_of si' k = map_of si k)
        \<and> extends st st'
            (map (\<lambda>n. AttackCall NEIGHBOR (c_substr c) (Some (c_probs c)) (Some (c_loss c))) ns))
   \<and> (\<forall>nb a. c_neighbors c = Some nb \<and> nb \<noteq> [] \<and> \<not> dump_cache nc
          \<and> map_of (attackers_dict st) NEIGHBOR = Some a
          \<and> (\<forall>n\<in>set ns. \<exists>x. neighbor_score a nb c n = Inr x)
          \<and> holds_lists si (map ne_key ns) \<longrightarrow>
        (\<exists>si' st'. neighbor_loop c nc ns si st = Inr (si', st')))
   \<and> (\<forall>nb a ns1 n ns2 e. c_neighbors c = Some nb \<and> nb \<noteq> [] \<and> \<not> dump_cache nc
          \<and> map_of (attackers_dict st) NEIGHBOR = Some a
          \<and> (\<forall>m\<in>set ns1. \<exists>x. neighbor_score a nb c m = Inr x)
          \<and> holds_lists si (map ne_key ns1)
          \<and> neighbor_score a nb c n = Inl e \<longrightarrow>
        neighbor_loop c nc (ns1 @ n # ns2) si st = Inl e)
   \<and> (\<forall>dat tm cfg nc0 n_samples batch_size st0.
          NEIGHBOR \<in> fst ` set (attackers_dict st0) \<and> neigh_config cfg = Some nc0
          \<and> load_from_cache nc0 \<and> neighbors_cache dat = None \<longrightarrow>
        primary_pass dat tm cfg n_samples batch_size st0 = Inl (Raised KeyError))"
proof (intro conjI)
  show "(c_neighbors c = None \<or> c_neighbors c = Some [] \<or> dump_cache nc) \<longrightarrow>
       neighbor_loop c nc ns si st = Inr (si, st)"
    by (rule impI) (rule neighbor_loop_skip)
next
  show "\<forall>nb a si' st'. c_neighbors c = Some nb \<and> nb \<noteq> [] \<and> \<not> dump_cache nc
          \<and> map_of (attackers_dict st) NEIGHBOR = Some a
          \<and> neighbor_loop c nc ns si st = Inr (si', st') \<longrightarrow>
        (\<forall>n\<in>set ns. \<exists>x. neighbor_score a nb c n = Inr x)
        \<and> (\<forall>k. scores_at si' k
                 = scores_at si k
                   @ map (\<lambda>n. PFloat (projr (neighbor_score a nb c n)))
                       (filter (\<lambda>n. ne_key n = k) ns))
        \<and> (\<forall>k. (\<forall>n\<in>set ns. ne_key n \<noteq> k) \<longrightarrow> map_of si' k = map_of si k)
        \<and> extends st st'
            (map (\<lambda>n. AttackCall NEIGHBOR (c_substr c) (Some (c_probs c)) (Some (c_loss c))) ns)"
  proof (intro allI impI, elim conjE)
    fix nb a si' st'
    assume g: "c_neighbors c = Some nb" "nb \<noteq> []" "\<not> dump_cache nc"
      and a: "map_of (attackers_dict st) NEIGHBOR = Some a"
      and run: "neighbor_loop c nc ns si st = Inr (si', st')"
    show "(\<forall>n\<in>set ns. \<exists>x. neighbor_score a nb c n = Inr x)
        \<and> (\<forall>k. scores_at si' k
                 = scores_at si k
                   @ map (\<lambda>n. PFloat (projr (neighbor_score a nb c n)))
                       (filter (\<lambda>n. ne_key n = k) ns))
        \<and> (\<forall>k. (\<forall>n\<in>set ns. ne_key n \<noteq> k) \<longrightarrow> map_of si' k = map_of si k)
        \<and> extends st st'
            (map (\<lambda>n. AttackCall NEIGHBOR (c_substr c) (Some (c_probs c)) (Some (c_loss c))) ns)"
      by (rule neighbor_loop_returns[OF g run a refl])
  qed
next
  show "\<forall>nb a. c_neighbors c = Some nb \<and> nb \<noteq> [] \<and> \<not> dump_cache nc
          \<and> map_of (attackers_dict st) NEIGHBOR = Some a
          \<and> (\<forall>n\<in>set ns. \<exists>x. neighbor_score a nb c n = Inr x)
          \<and> holds_lists si (map ne_key ns) \<longrightarrow>
        (\<exists>si' st'. neighbor_loop c nc ns si st = Inr (si', st'))"
  proof (intro allI impI, elim conjE)
    fix nb a
    assume g: "c_neighbors c = Some nb" "nb \<noteq> []" "\<not> dump_cache nc"
      and a: "map_of (attackers_dict st) NEIGHBOR = Some a"
      and ok: "\<forall>n\<in>set ns. \<exists>x. neighbor_score a nb c n = Inr x"
      and h: "holds_lists si (map ne_key ns)"
    show "\<exists>si' st'. neighbor_loop c nc ns si st = Inr (si', st')"
      by (rule neighbor_loop_total[OF g a ok h])
  qed
next
  show "\<forall>nb a ns1 n ns2 e. c_neighbors c = Some nb \<and> nb \<noteq> [] \<and> \<not> dump_cache nc
          \<and> map_of (attackers_dict st) NEIGHBOR = Some a
          \<and> (\<forall>m\<in>set ns1. \<exists>x. neighbor_score a nb c m = Inr x)
          \<and> holds_lists si (map ne_key ns1)
          \<and> neighbor_score a nb c n = Inl e \<longrightarrow>
        neighbor_loop c nc (ns1 @ n # ns2) si st = Inl e"
  proof (intro allI impI, elim conjE)
    fix nb a ns1 n ns2 e
    assume g: "c_neighbors c = Some nb" "nb \<noteq> []" "\<not> dump_cache nc"
      and a: "map_of (attackers_dict st) NEIGHBOR = Some a"
      and ok: "\<forall>m\<in>set ns1. \<exists>x. neighbor_score a nb c m = Inr x"
      and h: "holds_lists si (map ne_key ns1)"
      and e: "neighbor_score a nb c n = Inl e"
    show "neighbor_loop c nc (ns1 @ n # ns2) si st = Inl e"
      by (rule neighbor_loop_raises[OF g a ok h e])
  qed
next
  show "\<forall>dat tm cfg nc0 n_samples batch_size st0.
          NEIGHBOR \<in> fst ` set (attackers_dict st0) \<and> neigh_config cfg = Some nc0
          \<and> load_from_cache nc0 \<and> neighbors_cache dat = None \<longrightarrow>
        primary_pass dat tm cfg n_samples batch_size st0 = Inl (Raised KeyError)"
    by (intro allI impI, elim conjE) (rule primary_pass_no_cache)
qed

theorem neighbor_loop_scores_witness:
  "neighbor_loop (ex_ctx None) ex_neigh [5, 10] [] nb_state = Inr ([], nb_state)
   \<and> neighbor_score (nb_attacker ex_cfg) nb_cache (ex_ctx (Some nb_cache)) 5 = Inr 2
   \<and> neighbor_score (nb_attacker ex_cfg) nb_cache (ex_ctx (Some nb_cache)) 10 = Inr 3
   \<and> returned (neighbor_loop (ex_ctx (Some nb_cache)) ex_neigh [5, 10] [] nb_state)
       = Some [(''ne-5'', PList [PFloat 2]), (''ne-10'', PList [PFloat 3])]
   \<and> scores_at [(''ne-5'', PList [PFloat 2]), (''ne-10'', PList [PFloat 3])] ''ne-10''
       = scores_at [] ''ne-10''
         @ map (\<lambda>n. PFloat (projr (neighbor_score (nb_attacker ex_cfg) nb_cache (ex_ctx (Some nb_cache)) n)))
             (filter (\<lambda>n. ne_key n = ''ne-10'') [5, 10])
   \<and> (\<exists>si' st'. neighbor_loop (ex_ctx (Some nb_cache)) ex_neigh [5, 10] [] nb_state = Inr (si', st'))
   \<and> neighbor_loop (ex_ctx (Some nb_cache)) ex_neigh ([5] @ 7 # [10]) [] nb_state = Inl KeyError
   \<and> primary_pass (ex_data\<lparr>neighbors_cache := None\<rparr>) (len_model ''target'') ex_cfg None 50 nb_state
       = Inl (Raised KeyError)"
proof -
  have g: "c_neighbors (ex_ctx (Some nb_cache)) = Some nb_cache" "nb_cache \<noteq> []" "\<not> dump_cache ex_neigh"
    by (simp_all add: ex_ctx_def nb_cache_def ex_neigh_def)
  have a: "map_of (attackers_dict nb_state) NEIGHBOR = Some (nb_attacker ex_cfg)"
    by (simp add: nb_state_def NEIGHBOR_def)
  have s5: "neighbor_score (nb_attacker ex_cfg) nb_cache (ex_ctx (Some nb_cache)) 5 = Inr 2"
    by code_simp
  have s10: "neighbor_score (nb_attacker ex_cfg) nb_cache (ex_ctx (Some nb_cache)) 10 = Inr 3"
    by code_simp
  have s7: "neighbor_score (nb_attacker ex_cfg) nb_cache (ex_ctx (Some nb_cache)) 7 = Inl KeyError"
    by code_simp
  have ok: "\<forall>n\<in>set [5, 10]. \<exists>x. neighbor_score (nb_attacker ex_cfg) nb_cache (ex_ctx (Some nb_cache)) n = Inr x"
    by (simp add: s5 s10)
  have ok1: "\<forall>n\<in>set [5]. \<exists>x. neighbor_score (nb_attacker ex_cfg) nb_cache (ex_ctx (Some nb_cache)) n = Inr x"
    by (simp add: s5)
  have h: "holds_lists [] (map ne_key [5, 10])" "holds_lists [] (map ne_key [5])"
    by (simp_all add: holds_lists_def)
  have ret: "returned (neighbor_loop (ex_ctx (Some nb_cache)) ex_neigh [5, 10] [] nb_state)
       = Some [(''ne-5'', PList [PFloat 2]), (''ne-10'', PList [PFloat 3])]"
    by code_simp
  from returnedD [OF ret] obtain st' where
    run: "neighbor_loop (ex_ctx (Some nb_cache)) ex_neigh [5, 10] [] nb_state
            = Inr ([(''ne-5'', PList [PFloat 2]), (''ne-10'', PList [PFloat 3])], st')"
    by (rule exE)
  have c1: "neighbor_loop (ex_ctx None) ex_neigh [5, 10] [] nb_state = Inr ([], nb_state)"
    by (rule neighbor_loop_scores [THEN conjunct1, rule_format]) (simp add: ex_ctx_def)
  have c2: "scores_at [(''ne-5'', PList [PFloat 2]), (''ne-10'', PList [PFloat 3])] ''ne-10''
       = scores_at [] ''ne-10''
         @ map (\<lambda>n. PFloat (projr (neighbor_score (nb_attacker ex_cfg) nb_cache (ex_ctx (Some nb_cache)) n)))
             (filter (\<lambda>n. ne_key n = ''ne-10'') [5, 10])"
    using neighbor_loop_scores [THEN conjunct2, THEN conjunct1, rule_format,
            of "ex_ctx (Some nb_cache)" nb_cache ex_neigh nb_state "nb_attacker ex_cfg" "[5, 10]" "[]"
               "[(''ne-5'', PList [PFloat 2]), (''ne-10'', PList [PFloat 3])]" st']
          g a run
    by simp
  have c3: "\<exists>si' st'. neighbor_loop (ex_ctx (Some nb_cache)) ex_neigh [5, 10] [] nb_state = Inr (si', st')"
    using neighbor_loop_scores [THEN conjunct2, THEN conjunct2, THEN conjunct1, rule_format,
            of "ex_ctx (Some nb_cache)" nb_cache ex_neigh nb_state "nb_attacker ex_cfg" "[5, 10]" "[]"]
          g a ok h(1)
    by simp
  have c4: "neighbor_loop (ex_ctx (Some nb_cache)) ex_neigh ([5] @ 7 # [10]) [] nb_state = Inl KeyError"
    using neighbor_loop_scores [THEN conjunct2, THEN conjunct2, THEN conjunct2, THEN conjunct1, rule_format,
            of "ex_ctx (Some nb_cache)" nb_cache ex_neigh nb_state "nb_attacker ex_cfg" "[5]" "[]" 7 KeyError "[10]"]
          g a ok1 h(2) s7
    by simp
  have c5: "primary_pass (ex_data\<lparr>neighbors_cache := None\<rparr>) (len_model ''target'') ex_cfg None 50 nb_state
       = Inl (Raised KeyError)"
    by (rule neighbor_loop_scores [THEN conjunct2, THEN conjunct2, THEN conjunct2, THEN conjunct2, rule_format,
            of nb_state ex_cfg ex_neigh])
       (simp add: nb_state_def NEIGHBOR_def ex_cfg_def ex_neigh_def)
  from c1 s5 s10 ret c2 c3 c4 c5 show ?thesis by (intro conjI)
qed


text \<open>
  Claim C5: when \<open>get_mia_scores\<close> returns, the samples are the substring lists of the
  processed records in input order, one per record; under every attack key the
  predictions hold, in the order of the records, the minimum of the scores of each record
  that has the key, and a record has at most one score list per key, which is a non-empty
  list of floats; the keys of the predictions are the keys of the records other than
  \<open>sample\<close> and \<open>detokenized\<close>; the minimum of a single score is that score.
\<close>

theorem aggregate_is_minimum:
  assumes "get_mia_scores dat att tm rms cfg n bs = Inr ((p, samples), st)"
  shows "\<exists>results. scored_records dat att tm rms cfg n bs = Inr (results, st)
        \<and> map Inr samples = map (sample_of cfg) (processed_records dat n bs)
        \<and> samples = map (\<lambda>r. fst (si_get r ''sample'')) results
        \<and> (\<forall>k. preds_at p k = concat (map (\<lambda>r. map minimum (aggregated k r)) results))
        \<and> (\<forall>k. k \<noteq> ''sample'' \<and> k \<noteq> ''detokenized'' \<longrightarrow>
               (\<forall>r\<in>set results. aggregated k r = (case map_of r k of None \<Rightarrow> [] | Some v \<Rightarrow> [v])))
        \<and> (\<forall>k. \<forall>r\<in>set results. \<forall>v\<in>set (aggregated k r).
               \<exists>x xs. v = PList (map PFloat (x # xs)) \<and> minimum v = Min (set (x # xs)))
        \<and> fst ` set p = (\<Union>r\<in>set results. {a \<in> fst ` set r. a \<noteq> ''sample'' \<and> a \<noteq> ''detokenized''})
        \<and> (\<forall>x. minimum (PList [PFloat x]) = x)"
proof -
  from get_mia_scores_split[OF assms] obtain results where
    sr: "scored_records dat att tm rms cfg n bs = Inr (results, st)"
    and ag: "aggregate results [] [] = Inr (p, samples)" by (elim exE conjE)
  from scored_records_split[OF sr] obtain results0 st0 where
    pp: "primary_pass dat tm cfg n bs \<lparr>attackers_dict = att, events = []\<rparr> = Inr (results0, st0)"
    and rp: "reference_pass cfg rms results0 st0 = Inr (results, st)" by (elim exE conjE)
  from primary_pass_grows[OF pp] have d0: "list_all (\<lambda>r. distinct (map fst r)) results0"
    and s0: "map (\<lambda>r. Inr (fst (si_get r ''sample''))) results0
               = map (sample_of cfg) (processed_records dat n bs)" by simp_all
  from reference_pass_extends[OF rp] d0 have
    ag2: "list_all2 (agree_except (prefix ''ref-'')) results0 results"
    and d: "list_all (\<lambda>r. distinct (map fst r)) results" by simp_all
  note a = aggregate_preds[OF ag]
  have c2: "samples = map (\<lambda>r. fst (si_get r ''sample'')) results"
    using a[of "[]"] by simp
  have "map Inr samples = map (\<lambda>r. Inr (fst (si_get r ''sample''))) results0"
    unfolding c2 agree_samples[OF ag2] by simp
  from this s0 have c1: "map Inr samples = map (sample_of cfg) (processed_records dat n bs)"
    by (rule trans)
  have c3: "\<forall>k. preds_at p k = concat (map (\<lambda>r. map minimum (aggregated k r)) results)"
    using a by (simp add: preds_at_def)
  have c4: "\<forall>k. k \<noteq> ''sample'' \<and> k \<noteq> ''detokenized'' \<longrightarrow>
               (\<forall>r\<in>set results. aggregated k r = (case map_of r k of None \<Rightarrow> [] | Some v \<Rightarrow> [v]))"
    using d by (auto simp: list_all_iff intro!: distinct_aggregated)
  have c5: "\<forall>k. \<forall>r\<in>set results. \<forall>v\<in>set (aggregated k r).
               \<exists>x xs. v = PList (map PFloat (x # xs)) \<and> minimum v = Min (set (x # xs))"
  proof (intro allI ballI)
    fix k r v assume r: "r \<in> set results" and v: "v \<in> set (aggregated k r)"
    from a[of k] have "\<forall>r\<in>set results. \<forall>v\<in>set (aggregated k r). \<exists>x xs. v = PList (map PFloat (x # xs))"
      by (elim conjE)
    from this[rule_format, OF r v] obtain x xs where vv: "v = PList (map PFloat (x # xs))"
      by (elim exE)
    have "minimum v = Min (set (x # xs))" unfolding vv by (rule minimum_floats)
    with vv have "v = PList (map PFloat (x # xs)) \<and> minimum v = Min (set (x # xs))" ..
    then show "\<exists>x xs. v = PList (map PFloat (x # xs)) \<and> minimum v = Min (set (x # xs))"
      by (intro exI)
  qed
  have c6: "fst ` set p = (\<Union>r\<in>set results. {a \<in> fst ` set r. a \<noteq> ''sample'' \<and> a \<noteq> ''detokenized''})"
    using a[of "[]"] by simp
  have c7: "\<forall>x. minimum (PList [PFloat x]) = x"
    using minimum_floats[of "[x]" for x] by simp
  from sr c1 c2 c3 c4 c5 c6 c7 show ?thesis by (intro exI[of _ results] conjI)
qed

theorem aggregate_is_minimum_witness:
  "\<exists>results st.
       get_mia_scores ex_data ex_attackers2 (len_model ''target'') (Some ex_refs) ex_cfg None 50
         = Inr ((ex_preds, ex_samples), st)
     \<and> scored_records ex_data ex_attackers2 (len_model ''target'') (Some ex_refs) ex_cfg None 50
         = Inr (results, st)
     \<and> map Inr ex_samples = map (sample_of ex_cfg) (processed_records ex_data None 50)
     \<and> ex_samples = map (\<lambda>r. fst (si_get r ''sample'')) results
     \<and> preds_at ex_preds ''ref-A'' = concat (map (\<lambda>r. map minimum (aggregated ''ref-A'' r)) results)"
proof -
  have "returned (get_mia_scores ex_data ex_attackers2 (len_model ''target'') (Some ex_refs) ex_cfg None 50)
          = Some (ex_preds, ex_samples)"
    by code_simp
  from returnedD [OF this] obtain st where
    run: "get_mia_scores ex_data ex_attackers2 (len_model ''target'') (Some ex_refs) ex_cfg None 50
            = Inr ((ex_preds, ex_samples), st)"
    by (rule exE)
  from aggregate_is_minimum [OF run] obtain results where
    a: "scored_records ex_data ex_attackers2 (len_model ''target'') (Some ex_refs) ex_cfg None 50
         = Inr (results, st)"
    and b: "map Inr ex_samples = map (sample_of ex_cfg) (processed_records ex_data None 50)"
    and c: "ex_samples = map (\<lambda>r. fst (si_get r ''sample'')) results"
    and d: "\<forall>k. preds_at ex_preds k = concat (map (\<lambda>r. map minimum (aggregated k r)) results)"
    by (elim exE conjE)
  from d have e: "preds_at ex_preds ''ref-A'' = concat (map (\<lambda>r. map minimum (aggregated ''ref-A'' r)) results)"
    by (rule spec)
  from run a b c e show ?thesis by (intro exI[of _ results] exI[of _ st] conjI)
qed

text \<open>
  The reference pass in a run that returns.  Without reference models the reference pass
  returns the records unchanged and only prints.  When the two passes return, the events of
  the run are those of the primary pass, in which no reference-based strategy is called and
  nothing is unloaded, followed by those of the reference pass, in which no token
  probabilities are computed and the calls on attack objects are: for each configured
  reference model that has a strategy, one call per substring of every record on the stored
  text with \<open>probs = None\<close> and the stored loss, then the unload of that strategy, before
  the next model.
\<close>

lemma reference_pass_second:
  "reference_pass cfg None rs0 s0 = Inr (rs0, s0\<lparr>events := events s0 @ [Print skip_message]\<rparr>)
   \<and> (\<forall>out st. get_mia_scores dat att tm rms cfg n bs = Inr (out, st) \<longrightarrow>
         (\<exists>results. scored_records dat att tm rms cfg n bs = Inr (results, st)))
   \<and> (\<forall>results st. scored_records dat att tm rms cfg n bs = Inr (results, st) \<longrightarrow>
       (\<exists>results0 st0 ev.
            primary_pass dat tm cfg n bs \<lparr>attackers_dict = att, events = []\<rparr> = Inr (results0, st0)
          \<and> list_all primary_event (events st0)
          \<and> events st = events st0 @ ev
          \<and> list_all no_probabilities ev
          \<and> filter is_call ev =
              (case rms of None \<Rightarrow> []
               | Some ms \<Rightarrow> ref_script cfg (map fst att) (map fst ms) results0)))"
proof (intro conjI allI impI)
  show "reference_pass cfg None rs0 s0 = Inr (rs0, s0\<lparr>events := events s0 @ [Print skip_message]\<rparr>)"
    by (simp add: reference_pass_def skip_message_def)
next
  fix out st assume "get_mia_scores dat att tm rms cfg n bs = Inr (out, st)"
  from get_mia_scores_split[OF this] show "\<exists>results. scored_records dat att tm rms cfg n bs = Inr (results, st)"
    by (elim exE conjE) (rule exI)
next
  fix results st assume "scored_records dat att tm rms cfg n bs = Inr (results, st)"
  from scored_records_split[OF this] obtain results0 st0 where
    pp: "primary_pass dat tm cfg n bs \<lparr>attackers_dict = att, events = []\<rparr> = Inr (results0, st0)"
    and rp: "reference_pass cfg rms results0 st0 = Inr (results, st)" by (elim exE conjE)
  from primary_pass_grows[OF pp] have "grows \<lparr>attackers_dict = att, events = []\<rparr> st0" by simp
  then have p1: "list_all primary_event (events st0)" and k0: "map fst (attackers_dict st0) = map fst att"
    by (auto simp: grows_def)
  from reference_pass_extends[OF rp] have
    "extends st0 st (case rms of None \<Rightarrow> []
        | Some ms \<Rightarrow> ref_script cfg (map fst (attackers_dict st0)) (map fst ms) results0)" by simp
  then obtain ev where ev: "events st = events st0 @ ev" "list_all no_probabilities ev"
    "filter is_call ev = (case rms of None \<Rightarrow> []
        | Some ms \<Rightarrow> ref_script cfg (map fst att) (map fst ms) results0)"
    unfolding extends_def k0 by (elim exE conjE)
  from pp p1 ev show "\<exists>results0 st0 ev.
            primary_pass dat tm cfg n bs \<lparr>attackers_dict = att, events = []\<rparr> = Inr (results0, st0)
          \<and> list_all primary_event (events st0)
          \<and> events st = events st0 @ ev
          \<and> list_all no_probabilities ev
          \<and> filter is_call ev =
              (case rms of None \<Rightarrow> []
               | Some ms \<Rightarrow> ref_script cfg (map fst att) (map fst ms) results0)"
    by (intro exI[of _ results0] exI[of _ st0] exI[of _ ev] conjI)
qed

lemma reference_pass_second_example:
  "\<exists>results st results0 st0 ev.
       scored_records ex_data ex_attackers2 (len_model ''target'') (Some ex_refs) ex_cfg None 50
         = Inr (results, st)
     \<and> primary_pass ex_data (len_model ''target'') ex_cfg None 50
          \<lparr>attackers_dict = ex_attackers2, events = []\<rparr> = Inr (results0, st0)
     \<and> list_all primary_event (events st0)
     \<and> events st = events st0 @ ev
     \<and> list_all no_probabilities ev
     \<and> filter is_call ev = ref_script ex_cfg (map fst ex_attackers2) (map fst ex_refs) results0"
proof -
  have "returned (scored_records ex_data ex_attackers2 (len_model ''target'') (Some ex_refs) ex_cfg None 50)
          \<noteq> None"
    by code_simp
  from returned_SomeE [OF this] obtain results st where
    run: "scored_records ex_data ex_attackers2 (len_model ''target'') (Some ex_refs) ex_cfg None 50
            = Inr (results, st)"
    by (elim exE)
  from reference_pass_second [THEN conjunct2, THEN conjunct2, rule_format, OF run] obtain results0 st0 ev where
    a: "primary_pass ex_data (len_model ''target'') ex_cfg None 50
          \<lparr>attackers_dict = ex_attackers2, events = []\<rparr> = Inr (results0, st0)"
    and b: "list_all primary_event (events st0)"
    and c: "events st = events st0 @ ev"
    and d: "list_all no_probabilities ev"
    and e: "filter is_call ev = (case Some ex_refs of None \<Rightarrow> []
               | Some ms \<Rightarrow> ref_script ex_cfg (map fst ex_attackers2) (map fst ms) results0)"
    by (elim exE conjE)
  from e have e': "filter is_call ev = ref_script ex_cfg (map fst ex_attackers2) (map fst ex_refs) results0"
    by simp
  from run a b c d e' show ?thesis
    by (intro exI[of _ results] exI[of _ st] exI[of _ results0] exI[of _ st0] exI[of _ ev] conjI)
qed

text \<open>The calls on attack objects in a run with two reference models.\<close>

lemma reference_calls_example:
  "map_option (filter is_call)
     (final_events (get_mia_scores ex_data ex_attackers2 (len_model ''target'') (Some ex_refs) ex_cfg None 50))
   = Some [AttackCall ''zlib'' (PStr ''abcd'') (Some []) (Some 4),
   AttackCall ''ne'' (PStr ''abcd'') (Some []) (Some 4),
   AttackCall ''ne'' (PStr ''abcd'') (Some []) (Some 4),
   AttackCall ''zlib'' (PStr ''ab'') (Some []) (Some 2),
   AttackCall ''ne'' (PStr ''ab'') (Some []) (Some 2),
   AttackCall ''ne'' (PStr ''ab'') (Some []) (Some 2),
   AttackCall ''zlib'' (PStr ''xyz'') (Some []) (Some 3),
   AttackCall ''ne'' (PStr ''xyz'') (Some []) (Some 3),
   AttackCall ''ne'' (PStr ''xyz'') (Some []) (Some 3),
   AttackCall ''ref-A'' (PStr ''abcd'') None (Some 4),
   AttackCall ''ref-A'' (PStr ''ab'') None (Some 2),
   AttackCall ''ref-A'' (PStr ''xyz'') None (Some 3),
   AttackUnload ''ref-A'',
   AttackCall ''ref-B'' (PStr ''abcd'') None (Some 4),
   AttackCall ''ref-B'' (PStr ''ab'') None (Some 2),
   AttackCall ''ref-B'' (PStr ''xyz'') None (Some 3),
   AttackUnload ''ref-B'']"
  by code_simp

text \<open>
  A strategy with a pretokenized configuration raises whenever it is called without
  \<open>detokenized_sample\<close>, which is how the reference pass calls it: there the loop over the
  substrings of a record never gets past the first one.
\<close>

lemma call_attack_pretokenized:
  assumes "map_of (attackers_dict st) k = Some a" "pretokenized (config a)" "detokenized_sample kw = None"
  shows "call_attack k d p kw st = Inl (ValueError detok_msg)"
  using assms by (simp add: call_attack_def attack_def Let_def case_prod_beta)

lemma ref_substr_loop_pretokenized:
  assumes "map_of (attackers_dict st) k = Some a" "pretokenized (config a)"
  shows "\<exists>e. ref_substr_loop cfg k r (item # items) acc st = Inl e"
proof -
  have "call_attack k d None \<lparr>detokenized_sample = None, loss = Some l, batch_size_kw = None,
                             substr_neighbors = None\<rparr> st = Inl (ValueError detok_msg)" for d l
    by (rule call_attack_pretokenized[OF assms]) simp
  then show ?thesis by (cases item) (simp split: sum.splits option.splits)
qed

text \<open>
  Claim C8 says that each reference score is computed from the stored loss and the
  (detokenized) sample text.  The reference pass does read the detokenized text,
  \<open>s = r["detokenized"][i]\<close>, and hands it to \<open>attacker.attack(s, probs=None, loss=...)\<close>
  as the document, with no \<open>detokenized_sample\<close>.  With a pretokenized configuration
  \<open>Attack.attack\<close> raises on that call: on records of token ids, with a strategy \<open>zlib\<close> and
  a reference strategy \<open>ref-A\<close>, the primary pass returns with the scores of \<open>zlib\<close>, which
  is called with \<open>detokenized_sample\<close>, the first call of the reference pass raises
  \<open>ValueError\<close>, and so does the run; no reference score is computed.
\<close>

theorem reference_pass_pretokenized_raises:
  "returned (primary_pass tok_data (tok_model ''target'') ex_pretok_cfg None 50
        \<lparr>attackers_dict = tok_attackers, events = []\<rparr>)
     = Some [[(''sample'', PList [PList [PInt 7, PInt 8], PList [PInt 9]]),
              (''detokenized'', PList [PStr ''tt'', PStr ''t'']),
              (''loss'', PList [PFloat 2, PFloat 1]),
              (''zlib'', PList [PFloat 1, PFloat 0])]]
   \<and> fst (attack (ex_attacker ex_pretok_cfg (Some (tok_model ''A'')) 3) (PStr ''tt'') None
           \<lparr>detokenized_sample = None, loss = Some 2, batch_size_kw = None, substr_neighbors = None\<rparr>)
       = Inl (ValueError detok_msg)
   \<and> failure (get_mia_scores tok_data tok_attackers (tok_model ''target'')
          (Some [(''org/A'', tok_model ''A'')]) ex_pretok_cfg None 50)
       = Some (Raised (ValueError detok_msg))"
  by code_simp

end
